theory Spec2Isabelle
  imports Main "HOL-Library.Word"
begin

section \<open>Kinds and types (src/core/type.hpp)\<close>

text \<open>
  \<^verbatim>\<open>name::Id\<close> comes from \<^verbatim>\<open>name.hpp\<close>, which is not among the sources; the
  specification only asks for an identifier that can be compared. Identifiers are
  strings here, as in the specification's examples (\<^verbatim>\<open>Con("Int", Star)\<close>).
\<close>

type_synonym Id = string

text \<open>
  \<^verbatim>\<open>struct Kind : std::variant<KStar, KArr>\<close>; \<^verbatim>\<open>KArr\<close> holds two shared
  pointers to kinds, \<^verbatim>\<open>lhs\<close> and \<^verbatim>\<open>rhs\<close>.
\<close>

datatype Kind = is_KStar: KStar | is_KArr: KArr (klhs: Kind) (krhs: Kind)

text \<open>\<^verbatim>\<open>KStar::is_equal\<close> (type.hpp, line 18) ignores its argument and returns true.\<close>

definition KStar_is_equal :: bool where
  "KStar_is_equal = True"

text \<open>
  Modelled from the spec: \<^verbatim>\<open>KArr::is_equal\<close> and \<^verbatim>\<open>Kind::operator==\<close> are only
  declared in type.hpp (lines 30, 47), their bodies are missing. Section 4.1:
  "structural equality; Star == Star is true; Arrow compares both sides recursively;
  cross-variant is false".
\<close>

function Kind_eq :: "Kind \<Rightarrow> Kind \<Rightarrow> bool"
  and KArr_is_equal :: "Kind \<Rightarrow> Kind \<Rightarrow> Kind \<Rightarrow> Kind \<Rightarrow> bool" where
  "Kind_eq KStar KStar = KStar_is_equal"
| "Kind_eq (KArr l r) (KArr l' r') = KArr_is_equal l r l' r'"
| "Kind_eq KStar (KArr l' r') = False"
| "Kind_eq (KArr l r) KStar = False"
| "KArr_is_equal l r l' r' = (Kind_eq l l' \<and> Kind_eq r r')"
  by pat_completeness auto
termination
  by (relation "measure (\<lambda>x. case x of Inl (a, b) \<Rightarrow> 2 * size a
                                    | Inr (l, r, l', r') \<Rightarrow> 2 * (size l + size r) + 1)")
     auto

definition Kind_neq :: "Kind \<Rightarrow> Kind \<Rightarrow> bool" where
  "Kind_neq a b = (\<not> Kind_eq a b)"

text \<open>
  \<^verbatim>\<open>Kind::to_string\<close> (type.hpp, lines 50-59) asks \<^verbatim>\<open>is<KStar>()\<close> and calls the
  printer of the alternative that is active.

  Modelled from the spec: the bodies of \<^verbatim>\<open>KStar::to_string\<close> and
  \<^verbatim>\<open>KArr::to_string\<close> are missing. Section 4.1: "Star renders as *; Arrow(l, r)
  renders left-associated with parentheses only where needed (e.g. (* -> *) -> *)".
\<close>

definition KStar_to_string :: string where
  "KStar_to_string = ''*''"

function Kind_to_string :: "Kind \<Rightarrow> string"
  and KArr_to_string :: "Kind \<Rightarrow> Kind \<Rightarrow> string" where
  "Kind_to_string k =
     (if is_KStar k then KStar_to_string else KArr_to_string (klhs k) (krhs k))"
| "KArr_to_string l r =
     (if is_KArr l then ''('' @ Kind_to_string l @ '')'' else Kind_to_string l)
       @ '' -> '' @ Kind_to_string r"
  by pat_completeness auto
termination
proof (relation "measure (\<lambda>x. case x of Inl k \<Rightarrow> 2 * size k
                                     | Inr (l, r) \<Rightarrow> 2 * (size l + size r) + 1)")
  show "wf (measure (\<lambda>x. case x of Inl k \<Rightarrow> 2 * size k
                                 | Inr (l, r) \<Rightarrow> 2 * (size l + size r) + 1))"
    by simp
next
  fix k :: Kind
  assume "\<not> is_KStar k"
  then obtain l r where "k = KArr l r" by (cases k) auto
  then show "(Inr (klhs k, krhs k), Inl k)
      \<in> measure (\<lambda>x. case x of Inl k \<Rightarrow> 2 * size k
                               | Inr (l, r) \<Rightarrow> 2 * (size l + size r) + 1)"
    by simp
qed auto

declare Kind_to_string.simps [simp del]

text \<open>
  \<^verbatim>\<open>struct Type : std::variant<TyVar, TyCon, TyApp, TyGen>\<close>. \<^verbatim>\<open>TyVar\<close> and
  \<^verbatim>\<open>TyCon\<close> store \<^verbatim>\<open>id\<close> and \<^verbatim>\<open>_kind\<close>, \<^verbatim>\<open>TyApp\<close> stores \<^verbatim>\<open>lhs\<close> and
  \<^verbatim>\<open>rhs\<close>, \<^verbatim>\<open>TyGen\<close> stores the 32-bit signed index \<^verbatim>\<open>i\<close>.
\<close>

datatype Type =
    is_TyVar: TyVar (ty_id: Id) (ty_kind: Kind)
  | is_TyCon: TyCon (ty_id: Id) (ty_kind: Kind)
  | is_TyApp: TyApp (app_lhs: Type) (app_rhs: Type)
  | is_TyGen: TyGen (gen_i: "32 word")

text \<open>
  The macro \<^verbatim>\<open>FALLTHROUGH_TYPE(f)\<close> (type.hpp, lines 116-124): four \<^verbatim>\<open>if\<close>
  statements in a row, each returning \<^verbatim>\<open>std::get<T>(*this).f()\<close> for the alternative
  \<^verbatim>\<open>T\<close> that is active, and nothing after the last one. Control that passes all
  four tests leaves the function without a return value: that is \<open>None\<close>.
\<close>

definition FALLTHROUGH_TYPE ::
  "(Id \<Rightarrow> Kind \<Rightarrow> 'a) \<Rightarrow> (Id \<Rightarrow> Kind \<Rightarrow> 'a) \<Rightarrow> (Type \<Rightarrow> Type \<Rightarrow> 'a) \<Rightarrow> (32 word \<Rightarrow> 'a)
     \<Rightarrow> Type \<Rightarrow> 'a option" where
  "FALLTHROUGH_TYPE fTyVar fTyCon fTyApp fTyGen t =
     (if is_TyVar t then Some (fTyVar (ty_id t) (ty_kind t))
      else if is_TyCon t then Some (fTyCon (ty_id t) (ty_kind t))
      else if is_TyApp t then Some (fTyApp (app_lhs t) (app_rhs t))
      else if is_TyGen t then Some (fTyGen (gen_i t))
      else None)"

text \<open>
  The per-variant printers \<^verbatim>\<open>TyVar::to_string\<close>, \<^verbatim>\<open>TyCon::to_string\<close>,
  \<^verbatim>\<open>TyApp::to_string\<close> and \<^verbatim>\<open>TyGen::to_string\<close> are declared in type.hpp without a
  body, and the specification fixes no format for them: they are parameters.
\<close>

record Type_printers =
  TyVar_to_string :: "Id \<Rightarrow> Kind \<Rightarrow> string"
  TyCon_to_string :: "Id \<Rightarrow> Kind \<Rightarrow> string"
  TyApp_to_string :: "Type \<Rightarrow> Type \<Rightarrow> string"
  TyGen_to_string :: "32 word \<Rightarrow> string"

text \<open>\<^verbatim>\<open>Type::to_string\<close> (type.hpp, line 146) is \<^verbatim>\<open>FALLTHROUGH_TYPE(to_string)\<close>.\<close>

definition Type_to_string :: "Type_printers \<Rightarrow> Type \<Rightarrow> string option" where
  "Type_to_string P t =
     FALLTHROUGH_TYPE (TyVar_to_string P) (TyCon_to_string P) (TyApp_to_string P)
       (TyGen_to_string P) t"

text \<open>
  Failures. The four unification failures are those of section 7 of the specification;
  \<open>InvariantViolation\<close> is the "invariant-violation kind of error, never a recoverable
  one" of section 4.2.
\<close>

datatype error =
    OccursCheckError
  | KindMismatchError
  | ConstructorMismatchError
  | UnifyError
  | InvariantViolation

text \<open>
  \<^verbatim>\<open>Type::kind\<close> (type.hpp, lines 139-145) is \<^verbatim>\<open>FALLTHROUGH_TYPE(kind)\<close>, written out
  here because \<^verbatim>\<open>TyApp::kind\<close> calls it again on the left subterm.

  Modelled from the spec: \<^verbatim>\<open>TyVar::kind\<close>, \<^verbatim>\<open>TyCon::kind\<close>, \<^verbatim>\<open>TyApp::kind\<close> and
  \<^verbatim>\<open>TyGen::kind\<close> are declared without a body, and \<^verbatim>\<open>Scheme\<close> is commented out
  (type.hpp, lines 162-172). Section 4.2: "Var/Con return their stored kind;
  App(lhs, rhs) returns the result-kind component of lhs.kind() (requires lhs.kind()
  be Arrow; ... fails with an invariant-violation kind of error, never a recoverable
  one); Gen returns the kind recorded for its index in the owning scheme (callers must
  track this context since a bare Gen does not self-describe)". The context is the
  kind list \<open>ks\<close> of the owning scheme (\<^verbatim>\<open>Scheme::kinds\<close>), empty outside a scheme;
  an index with no entry in it breaks the invariant "Gen indices inside one scheme are
  dense, starting at 0, ... matching the scheme's quantified-kind list".
\<close>

definition TyVar_kind :: "Id \<Rightarrow> Kind \<Rightarrow> error + Kind" where
  "TyVar_kind i k = Inr k"

definition TyCon_kind :: "Id \<Rightarrow> Kind \<Rightarrow> error + Kind" where
  "TyCon_kind i k = Inr k"

definition TyGen_kind :: "Kind list \<Rightarrow> 32 word \<Rightarrow> error + Kind" where
  "TyGen_kind ks i =
     (if 0 \<le> sint i \<and> nat (sint i) < length ks then Inr (ks ! nat (sint i))
      else Inl InvariantViolation)"

function Type_kind :: "Kind list \<Rightarrow> Type \<Rightarrow> (error + Kind) option"
  and TyApp_kind :: "Kind list \<Rightarrow> Type \<Rightarrow> Type \<Rightarrow> (error + Kind) option" where
  "Type_kind ks t =
     (if is_TyVar t then Some (TyVar_kind (ty_id t) (ty_kind t))
      else if is_TyCon t then Some (TyCon_kind (ty_id t) (ty_kind t))
      else if is_TyApp t then TyApp_kind ks (app_lhs t) (app_rhs t)
      else if is_TyGen t then Some (TyGen_kind ks (gen_i t))
      else None)"
| "TyApp_kind ks l r =
     (case Type_kind ks l of
        None \<Rightarrow> None
      | Some (Inl e) \<Rightarrow> Some (Inl e)
      | Some (Inr KStar) \<Rightarrow> Some (Inl InvariantViolation)
      | Some (Inr (KArr a b)) \<Rightarrow> Some (Inr b))"
  by pat_completeness auto
termination
proof (relation "measure (\<lambda>x. case x of Inl (ks, t) \<Rightarrow> 2 * size t
                                     | Inr (ks, l, r) \<Rightarrow> 2 * (size l + size r) + 1)")
  show "wf (measure (\<lambda>x. case x of Inl (ks, t) \<Rightarrow> 2 * size t
                                 | Inr (ks, l, r) \<Rightarrow> 2 * (size l + size r) + 1))"
    by simp
next
  fix ks :: "Kind list" and t :: Type
  assume "is_TyApp t"
  then obtain l r where "t = TyApp l r" by (cases t) auto
  then show "(Inr (ks, app_lhs t, app_rhs t), Inl (ks, t))
      \<in> measure (\<lambda>x. case x of Inl (ks, t) \<Rightarrow> 2 * size t
                               | Inr (ks, l, r) \<Rightarrow> 2 * (size l + size r) + 1)"
    by simp
qed auto

declare Type_kind.simps [simp del]

text \<open>
  Modelled from the spec: \<^verbatim>\<open>Scheme\<close> is commented out in type.hpp (lines 166-171).
  Section 3: "a kind list (one kind per quantified Gen index) paired with a qualified
  type body that may reference those indices".
\<close>

record Scheme =
  kinds :: "Kind list"
  ty :: Type

text \<open>The Gen placeholders of a type, from left to right.\<close>

fun Type_gens :: "Type \<Rightarrow> 32 word list" where
  "Type_gens (TyVar v k) = []"
| "Type_gens (TyCon c k) = []"
| "Type_gens (TyApp l r) = Type_gens l @ Type_gens r"
| "Type_gens (TyGen i) = [i]"

text \<open>
  Modelled from the spec, section 3, the invariant of a scheme: "Gen indices inside one
  scheme are dense, starting at 0, with no gaps, matching the scheme's quantified-kind
  list position-for-position".
\<close>

definition Scheme_dense :: "Scheme \<Rightarrow> bool" where
  "Scheme_dense sc =
     ((\<forall>i \<in> set (Type_gens (ty sc)). 0 \<le> sint i)
      \<and> set (map (\<lambda>i. nat (sint i)) (Type_gens (ty sc))) = set [0..<length (kinds sc)])"

section \<open>The input stream and the lexer (syntax/parser.cpp)\<close>

text \<open>
  \<^verbatim>\<open>std::istream\<close>, as far as parser.cpp uses it: the bytes already read (the last
  one first), the bytes still to read, the putback positions of the stream buffer, and
  the three state bits. The read position is the number of bytes already read.

  A stream buffer gives a byte back only while it has a putback position. \<open>putback\<close>
  is the number of putback positions at hand (how many of the bytes last read the
  buffer still holds before its read pointer); \<open>putback_max\<close> is how many of them the
  buffer keeps: none for an unbuffered stream buffer, all of them for a string buffer.
\<close>

record istream =
  consumed :: string
  rest :: string
  putback :: nat
  putback_max :: nat
  eofbit :: bool
  failbit :: bool
  badbit :: bool

definition EOF :: int where
  "EOF = -1"

definition good :: "istream \<Rightarrow> bool" where
  "good s = (\<not> eofbit s \<and> \<not> failbit s \<and> \<not> badbit s)"

text \<open>
  \<^verbatim>\<open>peek\<close>, \<^verbatim>\<open>get\<close> and \<^verbatim>\<open>unget\<close> are unformatted input functions: when the stream
  is not good they set \<^verbatim>\<open>failbit\<close> and read nothing. \<^verbatim>\<open>peek\<close> sets \<^verbatim>\<open>eofbit\<close> at the
  end of the input, \<^verbatim>\<open>get\<close> sets \<^verbatim>\<open>eofbit\<close> and \<^verbatim>\<open>failbit\<close> there. \<^verbatim>\<open>unget\<close> clears
  \<^verbatim>\<open>eofbit\<close> first (C++11; the file uses \<^verbatim>\<open>std::make_unique\<close>); when the stream
  buffer has no putback position it gives no byte back and sets \<^verbatim>\<open>badbit\<close>.
\<close>

definition istream_peek :: "istream \<Rightarrow> int \<times> istream" where
  "istream_peek s =
     (if \<not> good s then (EOF, s\<lparr>failbit := True\<rparr>)
      else case rest s of
             [] \<Rightarrow> (EOF, s\<lparr>eofbit := True\<rparr>)
           | c # cs \<Rightarrow> (of_char c, s))"

definition istream_get :: "istream \<Rightarrow> int \<times> istream" where
  "istream_get s =
     (if \<not> good s then (EOF, s\<lparr>failbit := True\<rparr>)
      else case rest s of
             [] \<Rightarrow> (EOF, s\<lparr>eofbit := True, failbit := True\<rparr>)
           | c # cs \<Rightarrow>
               (of_char c,
                s\<lparr>consumed := c # consumed s, rest := cs,
                  putback := min (putback_max s) (Suc (putback s))\<rparr>))"

definition istream_unget :: "istream \<Rightarrow> istream" where
  "istream_unget s =
     (let s1 = s\<lparr>eofbit := False\<rparr> in
      if \<not> good s1 then s1\<lparr>failbit := True\<rparr>
      else if putback s1 = 0 then s1\<lparr>badbit := True\<rparr>
      else case consumed s1 of
             [] \<Rightarrow> s1\<lparr>badbit := True\<rparr>
           | c # cs \<Rightarrow> s1\<lparr>consumed := cs, rest := c # rest s1, putback := putback s1 - 1\<rparr>)"

definition istream_eof :: "istream \<Rightarrow> bool" where
  "istream_eof s = eofbit s"

text \<open>
  The character classes of \<^verbatim>\<open><cctype>\<close> in the "C" locale (parser.cpp never sets
  another one), on the \<^verbatim>\<open>int\<close> that \<^verbatim>\<open>peek\<close> returns.
\<close>

definition isspace :: "int \<Rightarrow> bool" where
  "isspace c = (c = 32 \<or> (9 \<le> c \<and> c \<le> 13))"

definition isalpha :: "int \<Rightarrow> bool" where
  "isalpha c = ((65 \<le> c \<and> c \<le> 90) \<or> (97 \<le> c \<and> c \<le> 122))"

definition isdigit :: "int \<Rightarrow> bool" where
  "isdigit c = (48 \<le> c \<and> c \<le> 57)"

definition isalnum :: "int \<Rightarrow> bool" where
  "isalnum c = (isalpha c \<or> isdigit c)"

definition isascii :: "int \<Rightarrow> bool" where
  "isascii c = (0 \<le> c \<and> c \<le> 127)"

text \<open>
  \<^verbatim>\<open>char tmp = getc()\<close> converts an \<^verbatim>\<open>int\<close> to plain \<^verbatim>\<open>char\<close>, and a comparison or a
  conversion to \<^verbatim>\<open>int\<close> reads it back. Plain \<^verbatim>\<open>char\<close> is signed here (as on x86-64),
  so the byte 255 and \<^verbatim>\<open>EOF\<close> both read back as -1.
\<close>

definition to_char :: "int \<Rightarrow> int" where
  "to_char c = (let b = c mod 256 in if b < 128 then b else b - 256)"

text \<open>\<^verbatim>\<open>is_space\<close> (parser.cpp, lines 48-59).\<close>

definition is_space :: "istream \<Rightarrow> bool \<times> istream" where
  "is_space s =
     (let (c1, s1) = istream_peek s in
      if isspace c1 then (True, s1)
      else
        let (c2, s2) = istream_peek s1 in
        if c2 \<noteq> 0xc2 then (False, s2)
        else
          let (c3, s3) = istream_get s2;
              (c4, s4) = istream_peek s3 in
          if c4 = 0xa0 then (True, s4)
          else (False, istream_unget s4))"

text \<open>
  \<^verbatim>\<open>Span\<close>, \<^verbatim>\<open>Token\<close>, the token enumerators and the class \<^verbatim>\<open>Parser\<close> are declared
  in headers that are not among the sources (parser.hpp, ast.hpp). parser.cpp reads and
  writes the \<^verbatim>\<open>int\<close> members \<^verbatim>\<open>begin\<close> and \<^verbatim>\<open>end\<close> of a span and calls its methods
  \<^verbatim>\<open>newline\<close>, \<^verbatim>\<open>next\<close>, \<^verbatim>\<open>mkfrom\<close> and \<^verbatim>\<open>rangeFrom\<close>; a token has the members
  \<^verbatim>\<open>type\<close> (an \<^verbatim>\<open>int\<close>: an enumerator or a character), \<^verbatim>\<open>lexeme\<close> and \<^verbatim>\<open>span\<close>.
  The other members of a span are the extension \<open>'x\<close> of the record; the methods, the
  constructor and the values of the enumerators are parameters, collected in
  \<open>parser_hpp\<close>.
\<close>

record Span =
  span_begin :: int
  span_end :: int

record 'x Token =
  tok_type :: int
  lexeme :: string
  tok_span :: "'x Span_scheme"

record 'x parser_hpp =
  tok_eof :: int
  tok_fn :: int
  tok_extern :: int
  tok_identifier :: int
  tok_number :: int
  tok_op :: int
  tok_let :: int
  Span_ctor :: "string \<Rightarrow> int \<Rightarrow> int \<Rightarrow> int \<Rightarrow> 'x Span_scheme"
  Span_newline :: "'x Span_scheme \<Rightarrow> 'x Span_scheme"
  Span_next :: "'x Span_scheme \<Rightarrow> 'x Span_scheme"
  Span_mkfrom :: "'x Span_scheme \<Rightarrow> int \<Rightarrow> 'x Span_scheme"
  Span_rangeFrom :: "'x Span_scheme \<Rightarrow> 'x Span_scheme \<Rightarrow> 'x Span_scheme"

text \<open>
  The members of \<^verbatim>\<open>Parser\<close> that parser.cpp uses: \<^verbatim>\<open>_buffer\<close> (a deque of tokens),
  \<^verbatim>\<open>src\<close> (the stream), \<^verbatim>\<open>span\<close>, \<^verbatim>\<open>cur_token\<close> (a pointer, null after the
  constructor) and \<^verbatim>\<open>binop_prec\<close> (a \<^verbatim>\<open>std::map\<close> from \<^verbatim>\<open>char\<close> to \<^verbatim>\<open>int\<close>).
\<close>

record 'x Parser =
  buffer :: "'x Token list"
  src :: istream
  span :: "'x Span_scheme"
  cur_token :: "'x Token option"
  binop_prec :: "char \<rightharpoonup> int"

text \<open>The constructor (parser.cpp, lines 61-68).\<close>

definition Parser_ctor :: "'x parser_hpp \<Rightarrow> string \<Rightarrow> istream \<Rightarrow> 'x Parser" where
  "Parser_ctor H filename s =
     \<lparr>buffer = [], src = s, span = Span_ctor H filename 0 0 (-1), cur_token = None,
      binop_prec = [CHR ''<'' \<mapsto> 10, CHR ''+'' \<mapsto> 20, CHR ''-'' \<mapsto> 20, CHR ''*'' \<mapsto> 40]\<rparr>"

text \<open>\<^verbatim>\<open>Parser::getc\<close> (parser.cpp, lines 70-78).\<close>

definition getc :: "'x parser_hpp \<Rightarrow> 'x Parser \<Rightarrow> int \<times> 'x Parser" where
  "getc H p =
     (let (c, s') = istream_get (src p);
          sp = (if c = 10 then Span_newline H (span p) else span p)
      in (c, p\<lparr>src := s', span := Span_next H sp\<rparr>))"

text \<open>The loop \<^verbatim>\<open>while (is_space(src)) getc();\<close> (lines 87-89).\<close>

function skip_space :: "'x parser_hpp \<Rightarrow> 'x Parser \<Rightarrow> 'x Parser" where
  "skip_space H p =
     (let (b, s1) = is_space (src p) in
      if b then skip_space H (snd (getc H (p\<lparr>src := s1\<rparr>)))
      else p\<lparr>src := s1\<rparr>)"
  by pat_completeness auto
termination
proof (relation "measure (\<lambda>(H, p). length (rest (src p)))")
  show "wf (measure (\<lambda>(H, p). length (rest (src p))))" by simp
next
  fix H :: "'x parser_hpp" and p :: "'x Parser" and x :: "bool \<times> istream"
    and b :: bool and s1 :: istream
  assume "x = is_space (src p)" and "(b, s1) = x" and b
  then have "is_space (src p) = (True, s1)" by simp
  then have "length (rest (snd (istream_get s1))) < length (rest (src p))"
    by (auto simp add: is_space_def istream_peek_def istream_get_def istream_unget_def
        good_def isspace_def EOF_def Let_def
        split: if_splits list.splits prod.splits)
  then show "((H, snd (getc H (p\<lparr>src := s1\<rparr>))), (H, p))
      \<in> measure (\<lambda>(H, p). length (rest (src p)))"
    by (simp add: getc_def split_beta Let_def)
qed

declare skip_space.simps [simp del]

text \<open>The loop \<^verbatim>\<open>while (isalnum(src.peek())) tmp += getc();\<close> (lines 102-103).\<close>

function word_loop :: "'x parser_hpp \<Rightarrow> 'x Parser \<Rightarrow> string \<Rightarrow> string \<times> 'x Parser" where
  "word_loop H p tmp =
     (let (c, s1) = istream_peek (src p) in
      if isalnum c then
        (let (c', p1) = getc H (p\<lparr>src := s1\<rparr>) in word_loop H p1 (tmp @ [char_of c']))
      else (tmp, p\<lparr>src := s1\<rparr>))"
  by pat_completeness auto
termination
proof (relation "measure (\<lambda>(H, p, tmp). length (rest (src p)))")
  show "wf (measure (\<lambda>(H, p, tmp). length (rest (src p))))" by simp
next
  fix H :: "'x parser_hpp" and p :: "'x Parser" and tmp :: string
    and x :: "int \<times> istream" and c :: int and s1 :: istream
    and y :: "int \<times> 'x Parser" and c' :: int and p1 :: "'x Parser"
  assume "x = istream_peek (src p)" and "(c, s1) = x" and "isalnum c"
    and "y = getc H (p\<lparr>src := s1\<rparr>)" and "(c', p1) = y"
  then have pk: "istream_peek (src p) = (c, s1)" and c: "isalnum c"
    and g: "getc H (p\<lparr>src := s1\<rparr>) = (c', p1)" by simp_all
  from c have "c \<noteq> EOF" by (auto simp add: isalnum_def isalpha_def isdigit_def EOF_def)
  with pk have "length (rest (snd (istream_get s1))) < length (rest (src p))"
    by (auto simp add: istream_peek_def istream_get_def split: if_splits list.splits)
  with g have "length (rest (src p1)) < length (rest (src p))"
    by (auto simp add: getc_def split_beta Let_def)
  then show "((H, p1, tmp @ [char_of c']), (H, p, tmp))
      \<in> measure (\<lambda>(H, p, tmp). length (rest (src p)))"
    by simp
qed

declare word_loop.simps [simp del]

text \<open>
  The test \<^verbatim>\<open>isdigit(src.peek()) || src.peek() == '.'\<close> (lines 113 and 118): the
  second \<^verbatim>\<open>peek\<close> is made only when the first byte is no digit.
\<close>

definition peek_digit_or_dot :: "istream \<Rightarrow> bool \<times> istream" where
  "peek_digit_or_dot s =
     (let (d, s1) = istream_peek s in
      if isdigit d then (True, s1)
      else let (e, s2) = istream_peek s1 in (e = 46, s2))"

text \<open>The loop \<^verbatim>\<open>do { num_str += getc(); } while (...)\<close> (lines 116-118).\<close>

function number_loop :: "'x parser_hpp \<Rightarrow> 'x Parser \<Rightarrow> string \<Rightarrow> string \<times> 'x Parser" where
  "number_loop H p num_str =
     (let (c, p1) = getc H p;
          num_str' = num_str @ [char_of c];
          (more, s2) = peek_digit_or_dot (src p1)
      in if more then number_loop H (p1\<lparr>src := s2\<rparr>) num_str'
         else (num_str', p1\<lparr>src := s2\<rparr>))"
  by pat_completeness auto
termination
proof (relation "measure (\<lambda>(H, p, num_str). length (rest (src p)))")
  show "wf (measure (\<lambda>(H, p, num_str). length (rest (src p))))" by simp
next
  fix H :: "'x parser_hpp" and p :: "'x Parser" and num_str :: string
    and x :: "int \<times> 'x Parser" and c :: int and p1 :: "'x Parser"
    and xa :: string and y :: "bool \<times> istream" and more :: bool and s2 :: istream
  assume "x = getc H p" and "(c, p1) = x" and "xa = num_str @ [char_of c]"
    and "y = peek_digit_or_dot (src p1)" and "(more, s2) = y" and more
  then have g: "getc H p = (c, p1)" and pk: "peek_digit_or_dot (src p1) = (True, s2)"
    by simp_all
  from g have p1: "src p1 = snd (istream_get (src p))"
    by (auto simp add: getc_def split_beta Let_def)
  from pk have "length (rest s2) < length (rest (src p))"
    unfolding p1
    by (auto simp add: peek_digit_or_dot_def istream_peek_def istream_get_def good_def
        isdigit_def EOF_def Let_def split: if_splits list.splits prod.splits)
  then show "((H, p1\<lparr>src := s2\<rparr>, xa), (H, p, num_str))
      \<in> measure (\<lambda>(H, p, num_str). length (rest (src p)))"
    by simp
qed

declare number_loop.simps [simp del]

text \<open>
  The loop \<^verbatim>\<open>do { tmp = getc(); } while (tmp != EOF && tmp != '\n' && tmp != '\r');\<close>
  (lines 123-126), \<^verbatim>\<open>tmp\<close> being a \<^verbatim>\<open>char\<close>.
\<close>

function comment_loop :: "'x parser_hpp \<Rightarrow> 'x Parser \<Rightarrow> int \<times> 'x Parser" where
  "comment_loop H p =
     (let (c, p1) = getc H p;
          tmp = to_char c
      in if tmp \<noteq> EOF \<and> tmp \<noteq> 10 \<and> tmp \<noteq> 13 then comment_loop H p1
         else (tmp, p1))"
  by pat_completeness auto
termination
proof (relation "measure (\<lambda>(H, p). length (rest (src p)))")
  show "wf (measure (\<lambda>(H, p). length (rest (src p))))" by simp
next
  fix H :: "'x parser_hpp" and p :: "'x Parser"
    and x :: "int \<times> 'x Parser" and c :: int and p1 :: "'x Parser" and tmp :: int
  assume "x = getc H p" and "(c, p1) = x" and "tmp = to_char c"
    and "tmp \<noteq> EOF \<and> tmp \<noteq> 10 \<and> tmp \<noteq> 13"
  then have g: "getc H p = (c, p1)" and c: "to_char c \<noteq> EOF" by simp_all
  from c have "c \<noteq> EOF" by (auto simp add: to_char_def EOF_def)
  with g have "length (rest (src p1)) < length (rest (src p))"
    by (auto simp add: getc_def istream_get_def split_beta Let_def
        split: if_splits list.splits)
  then show "((H, p1), (H, p)) \<in> measure (\<lambda>(H, p). length (rest (src p)))"
    by simp
qed

declare comment_loop.simps [simp del]

text \<open>
  The end of \<^verbatim>\<open>get_token\<close> (lines 131-134): the next byte, converted to \<^verbatim>\<open>char\<close>,
  is both the type and the lexeme of the token.
\<close>

definition get_token_unknown :: "'x parser_hpp \<Rightarrow> 'x Parser \<Rightarrow> 'x Token \<times> 'x Parser" where
  "get_token_unknown H p =
     (let (c, p1) = getc H p;
          ignore = to_char c;
          s = Span_mkfrom H (span p1) (span_begin (span p1) - 1)
      in (\<lparr>tok_type = ignore, lexeme = [char_of ignore], tok_span = s\<rparr>, p1))"

text \<open>\<^verbatim>\<open>Parser::get_token\<close> (parser.cpp, lines 80-135).\<close>

function get_token :: "'x parser_hpp \<Rightarrow> 'x Parser \<Rightarrow> 'x Token \<times> 'x Parser" where
  "get_token H p =
     (if buffer p \<noteq> [] then (hd (buffer p), p\<lparr>buffer := tl (buffer p)\<rparr>)
      else
        let p1 = skip_space H p in
        if istream_eof (src p1) then
          (let sp = (span p1)\<lparr>span_end := span_begin (span p1), span_begin := 0\<rparr>
           in (\<lparr>tok_type = tok_eof H, lexeme = [], tok_span = sp\<rparr>, p1\<lparr>span := sp\<rparr>))
        else
          let (a, s2) = istream_peek (src p1);
              p2 = p1\<lparr>src := s2\<rparr>
          in
          if isalpha a then
            (let beg = span_begin (span p2);
                 (c, p3) = getc H p2;
                 (tmp, p4) = word_loop H p3 [char_of c];
                 s = Span_mkfrom H (span p4) beg
             in if tmp = ''fn'' then
                  (\<lparr>tok_type = tok_fn H, lexeme = tmp, tok_span = s\<rparr>, p4)
                else if tmp = ''extern'' then
                  (\<lparr>tok_type = tok_extern H, lexeme = tmp, tok_span = s\<rparr>, p4)
                else (\<lparr>tok_type = tok_identifier H, lexeme = tmp, tok_span = s\<rparr>, p4))
          else
            let (isnum, s3) = peek_digit_or_dot (src p2);
                p3 = p2\<lparr>src := s3\<rparr>
            in
            if isnum then
              (let beg = span_begin (span p3) + 1;
                   (num_str, p4) = number_loop H p3 []
               in (\<lparr>tok_type = tok_number H, lexeme = num_str,
                    tok_span = Span_mkfrom H (span p4) beg\<rparr>, p4))
            else
              let (h, s4) = istream_peek (src p3);
                  p4 = p3\<lparr>src := s4\<rparr>
              in
              if h = 35 then
                (let (tmp, p5) = comment_loop H p4 in
                 if tmp \<noteq> EOF then get_token H p5 else get_token_unknown H p5)
              else get_token_unknown H p4)"
  by pat_completeness auto
termination
proof (relation "measure (\<lambda>(H, p). length (rest (src p)))")
  show "wf (measure (\<lambda>(H, p). length (rest (src p))))" by simp
next
  fix H :: "'x parser_hpp" and p :: "'x Parser" and p1 :: "'x Parser"
    and x :: "int \<times> istream" and a :: int and s2 :: istream and p2 :: "'x Parser"
    and xb :: "bool \<times> istream" and isnum :: bool and s3 :: istream and p3 :: "'x Parser"
    and xd :: "int \<times> istream" and h :: int and s4 :: istream and p4 :: "'x Parser"
    and xf :: "int \<times> 'x Parser" and tmp :: int and p5 :: "'x Parser"
  assume "p1 = skip_space H p"
    and "x = istream_peek (src p1)" and "(a, s2) = x" and "p2 = p1\<lparr>src := s2\<rparr>"
    and "xb = peek_digit_or_dot (src p2)" and "(isnum, s3) = xb" and "p3 = p2\<lparr>src := s3\<rparr>"
    and "xd = istream_peek (src p3)" and "(h, s4) = xd" and "p4 = p3\<lparr>src := s4\<rparr>"
    and "h = 35" and "xf = comment_loop H p4" and "(tmp, p5) = xf"
  then have p1: "p1 = skip_space H p"
    and a: "istream_peek (src p1) = (a, s2)"
    and n: "peek_digit_or_dot s2 = (isnum, s3)"
    and h: "istream_peek s3 = (35, s4)"
    and c: "comment_loop H (p1\<lparr>src := s4\<rparr>) = (tmp, p5)"
    by simp_all
  have skip: "length (rest (src (skip_space H q))) \<le> length (rest (src q))"
    for q :: "'x Parser"
  proof (induction H q rule: skip_space.induct)
    case (1 H q)
    obtain b s1 where isp: "is_space (src q) = (b, s1)" by (cases "is_space (src q)")
    then have le: "length (rest s1) \<le> length (rest (src q))"
      by (auto simp add: is_space_def istream_peek_def istream_get_def istream_unget_def
          good_def Let_def split: if_splits list.splits prod.splits)
    show ?case
    proof (cases b)
      case True
      have "length (rest (src (snd (getc H (q\<lparr>src := s1\<rparr>))))) \<le> length (rest s1)"
        by (auto simp add: getc_def istream_get_def split_beta Let_def split: list.splits)
      with 1 [OF isp [symmetric] refl True] le True isp show ?thesis
        by (subst skip_space.simps) simp
    next
      case False
      with le isp show ?thesis by (subst skip_space.simps) simp
    qed
  qed
  have loop: "length (rest (src (snd (comment_loop H q)))) \<le> length (rest (src q))"
    for q :: "'x Parser"
  proof (induction H q rule: comment_loop.induct)
    case (1 H q)
    obtain c q1 where g: "getc H q = (c, q1)" by (cases "getc H q")
    then have le: "length (rest (src q1)) \<le> length (rest (src q))"
      by (auto simp add: getc_def istream_get_def split_beta Let_def
          split: if_splits list.splits)
    show ?case
    proof (cases "to_char c \<noteq> EOF \<and> to_char c \<noteq> 10 \<and> to_char c \<noteq> 13")
      case True
      with 1 [OF g [symmetric] refl refl True] le g show ?thesis
        by (subst comment_loop.simps) simp
    next
      case False
      with le g show ?thesis by (subst comment_loop.simps) auto
    qed
  qed
  from h have s4: "s4 = s3" and ne3: "rest s3 \<noteq> []" and g3: "good s3"
    by (auto simp add: istream_peek_def EOF_def split: if_splits list.splits)
  from n have "length (rest s3) \<le> length (rest s2)"
    by (auto simp add: peek_digit_or_dot_def istream_peek_def Let_def
        split: if_splits list.splits prod.splits)
  moreover from a have "length (rest s2) \<le> length (rest (src p1))"
    by (auto simp add: istream_peek_def split: if_splits list.splits)
  ultimately have le3: "length (rest s3) \<le> length (rest (src p))"
    using skip [of p] p1 by simp
  obtain c q1 where g: "getc H (p1\<lparr>src := s3\<rparr>) = (c, q1)"
    by (cases "getc H (p1\<lparr>src := s3\<rparr>)")
  with ne3 g3 have lt: "length (rest (src q1)) < length (rest s3)"
    by (auto simp add: getc_def istream_get_def split_beta Let_def split: list.splits)
  have "length (rest (src p5)) \<le> length (rest (src q1))"
  proof (cases "to_char c \<noteq> EOF \<and> to_char c \<noteq> 10 \<and> to_char c \<noteq> 13")
    case True
    with c g s4 have "comment_loop H q1 = (tmp, p5)"
      by (subst (asm) comment_loop.simps) simp
    with loop [of q1] show ?thesis by simp
  next
    case False
    with c g s4 have "p5 = q1" by (subst (asm) comment_loop.simps) auto
    then show ?thesis by simp
  qed
  with lt le3 show "((H, p5), (H, p)) \<in> measure (\<lambda>(H, p). length (rest (src p)))"
    by simp
qed

declare get_token.simps [simp del]

section \<open>The parser (syntax/parser.cpp)\<close>

text \<open>
  A call either returns, or its behaviour is undefined (a null \<^verbatim>\<open>cur_token\<close> is
  dereferenced, \<^verbatim>\<open>back()\<close> is called on an empty deque), or, for the functions of the
  recursive descent, the bound on the depth of the calls is used up.
\<close>

datatype 'r outcome = Returns 'r | Undefined | OutOfFuel

definition obind :: "'a outcome \<Rightarrow> ('a \<Rightarrow> 'b outcome) \<Rightarrow> 'b outcome" where
  "obind m f = (case m of Returns r \<Rightarrow> f r | Undefined \<Rightarrow> Undefined | OutOfFuel \<Rightarrow> OutOfFuel)"

text \<open>
  The expression nodes that parser.cpp builds (their classes are declared in ast.hpp,
  which is not among the sources). A number node holds the lexeme; its value in the
  source is \<^verbatim>\<open>strtod\<close> of it. A null pointer to a node is \<open>None\<close>.
\<close>

datatype 'x Expr =
    NumberExpr (expr_name: string) (expr_span: "'x Span_scheme")
  | VariableExpr (expr_name: string) (expr_span: "'x Span_scheme")
  | CallExpr (expr_name: string) (call_args: "'x Expr list") (expr_span: "'x Span_scheme")
  | BinaryExpr (binop: int) (binop_lhs: "'x Expr") (binop_rhs: "'x Expr")
      (expr_span: "'x Span_scheme")

text \<open>
  \<^verbatim>\<open>Stmt\<close> is declared in ast.hpp; \<^verbatim>\<open>parse_assignment\<close> is declared to return a pointer
  to one and builds none.
\<close>

typedecl Stmt

text \<open>\<^verbatim>\<open>Parser::next_token\<close> (lines 151-154).\<close>

definition next_token :: "'x parser_hpp \<Rightarrow> 'x Parser \<Rightarrow> int \<times> 'x Parser" where
  "next_token H p =
     (let (t, p1) = get_token H p in (tok_type t, p1\<lparr>cur_token := Some t\<rparr>))"

text \<open>
  \<^verbatim>\<open>Parser::peek_token\<close> (lines 137-149). The loop runs at most \<open>i\<close> times;
  \<^verbatim>\<open>_buffer.back()\<close> on an empty deque is undefined.
\<close>

fun peek_token_loop ::
  "'x parser_hpp \<Rightarrow> nat \<Rightarrow> 'x Parser \<Rightarrow> (int \<times> 'x Parser) outcome" where
  "peek_token_loop H 0 p =
     (if buffer p = [] then Undefined else Returns (tok_type (last (buffer p)), p))"
| "peek_token_loop H (Suc i) p =
     (if buffer p = [] then Undefined
      else if tok_type (last (buffer p)) \<noteq> tok_eof H then
        (let (t, p1) = get_token H p in
         peek_token_loop H i (p1\<lparr>buffer := buffer p1 @ [t]\<rparr>))
      else Returns (tok_type (last (buffer p)), p))"

definition peek_token ::
  "'x parser_hpp \<Rightarrow> nat \<Rightarrow> 'x Parser \<Rightarrow> (int \<times> 'x Parser) outcome" where
  "peek_token H n p =
     (if n < 1 then
        (case cur_token p of None \<Rightarrow> Undefined | Some t \<Rightarrow> Returns (tok_type t, p))
      else if n \<le> length (buffer p) then Returns (tok_type (buffer p ! (n - 1)), p)
      else peek_token_loop H (n - length (buffer p)) p)"

text \<open>\<^verbatim>\<open>Parser::parse_num_expr\<close> (lines 156-162).\<close>

definition parse_num_expr ::
  "'x parser_hpp \<Rightarrow> 'x Parser \<Rightarrow> ('x Expr option \<times> 'x Parser) outcome" where
  "parse_num_expr H p =
     (case cur_token p of
        None \<Rightarrow> Undefined
      | Some t \<Rightarrow>
          let res = NumberExpr (lexeme t) (tok_span t);
              (ty, p1) = next_token H p
          in Returns (Some res, p1))"

text \<open>\<^verbatim>\<open>Parser::parse_id_expr\<close> (lines 176-184).\<close>

definition parse_id_expr ::
  "'x parser_hpp \<Rightarrow> 'x Parser \<Rightarrow> ('x Expr option \<times> 'x Parser) outcome" where
  "parse_id_expr H p =
     (case cur_token p of
        None \<Rightarrow> Undefined
      | Some t \<Rightarrow>
          if tok_type t \<noteq> tok_identifier H then Returns (None, p)
          else
            let id_name = lexeme t;
                (ty, p1) = next_token H p
            in case cur_token p1 of
                 None \<Rightarrow> Undefined
               | Some t1 \<Rightarrow> Returns (Some (VariableExpr id_name (tok_span t1)), p1))"

text \<open>
  \<^verbatim>\<open>Parser::get_token_prec\<close> (lines 241-251). \<^verbatim>\<open>binop_prec[tok->type]\<close> adds the key
  with the value 0 to the table when the key is not in it.
\<close>

definition get_token_prec ::
  "'x Token option \<Rightarrow> 'x Parser \<Rightarrow> (int \<times> 'x Parser) outcome" where
  "get_token_prec tok p =
     (case tok of
        None \<Rightarrow> Undefined
      | Some t \<Rightarrow>
          if \<not> isascii (tok_type t) then Returns (-1, p)
          else
            let k = char_of (tok_type t);
                (tokprec, m) = (case binop_prec p k of
                                  None \<Rightarrow> (0, (binop_prec p)(k \<mapsto> 0))
                                | Some v \<Rightarrow> (v, binop_prec p));
                p1 = p\<lparr>binop_prec := m\<rparr>
            in if tokprec \<le> 0 then Returns (-1, p1) else Returns (tokprec, p1))"

text \<open>
  The recursive descent: \<^verbatim>\<open>parse_primary\<close> (lines 221-239), \<^verbatim>\<open>parse_paren_expr\<close>
  (164-174), \<^verbatim>\<open>parse_call_expr\<close> (186-214) with its loop over the arguments,
  \<^verbatim>\<open>parse_binop_rhs\<close> (255-286) and \<^verbatim>\<open>parse_expr\<close> (290-295). The first argument
  bounds the depth of the calls and the number of turns of the loops.
  \<^verbatim>\<open>err::parse_errorE\<close> writes a line to \<^verbatim>\<open>stderr\<close>, which is not part of the state
  here, and returns a null pointer.
\<close>

fun parse_primary ::
  "nat \<Rightarrow> 'x parser_hpp \<Rightarrow> 'x Parser \<Rightarrow> ('x Expr option \<times> 'x Parser) outcome"
  and parse_paren_expr ::
  "nat \<Rightarrow> 'x parser_hpp \<Rightarrow> 'x Parser \<Rightarrow> ('x Expr option \<times> 'x Parser) outcome"
  and parse_call_expr ::
  "nat \<Rightarrow> 'x parser_hpp \<Rightarrow> 'x Parser \<Rightarrow> ('x Expr option \<times> 'x Parser) outcome"
  and parse_call_args ::
  "nat \<Rightarrow> 'x parser_hpp \<Rightarrow> 'x Expr list \<Rightarrow> 'x Parser
     \<Rightarrow> ('x Expr list option \<times> 'x Parser) outcome"
  and parse_binop_rhs ::
  "nat \<Rightarrow> 'x parser_hpp \<Rightarrow> int \<Rightarrow> 'x Expr \<Rightarrow> 'x Parser
     \<Rightarrow> ('x Expr option \<times> 'x Parser) outcome"
  and parse_expr ::
  "nat \<Rightarrow> 'x parser_hpp \<Rightarrow> 'x Parser \<Rightarrow> ('x Expr option \<times> 'x Parser) outcome"
where
  "parse_primary 0 H p = OutOfFuel"
| "parse_primary (Suc n) H p =
     (case cur_token p of
        None \<Rightarrow> Undefined
      | Some t \<Rightarrow>
          if tok_type t = tok_identifier H then
            obind (peek_token H 1 p) (\<lambda>(ty, p1).
              if ty = 40 then parse_call_expr n H p1 else parse_id_expr H p1)
          else if tok_type t = tok_number H then parse_num_expr H p
          else if tok_type t = 40 then parse_paren_expr n H p
          else Returns (None, p))"
| "parse_paren_expr 0 H p = OutOfFuel"
| "parse_paren_expr (Suc n) H p =
     (let (ty, p1) = next_token H p in
      obind (parse_expr n H p1) (\<lambda>(e, p2).
        if e = None then Returns (None, p2)
        else case cur_token p2 of
               None \<Rightarrow> Undefined
             | Some t \<Rightarrow>
                 if tok_type t \<noteq> 41 then Returns (None, p2)
                 else let (ty', p3) = next_token H p2 in Returns (e, p3)))"
| "parse_call_expr 0 H p = OutOfFuel"
| "parse_call_expr (Suc n) H p =
     obind (parse_id_expr H p) (\<lambda>(ide, p1).
       case ide of
         None \<Rightarrow> Returns (None, p1)
       | Some i \<Rightarrow>
           let id_name = expr_name i;
               beg = expr_span i;
               (ty, p2) = next_token H p1
           in case cur_token p2 of
                None \<Rightarrow> Undefined
              | Some t \<Rightarrow>
                  obind (if tok_type t \<noteq> 41 then parse_call_args n H [] p2
                         else Returns (Some [], p2)) (\<lambda>(args, p3).
                    case args of
                      None \<Rightarrow> Returns (None, p3)
                    | Some as \<Rightarrow>
                        let (ty', p4) = next_token H p3 in
                        case cur_token p4 of
                          None \<Rightarrow> Undefined
                        | Some t4 \<Rightarrow>
                            Returns (Some (CallExpr id_name as
                                       (Span_rangeFrom H (tok_span t4) beg)), p4)))"
| "parse_call_args 0 H args p = OutOfFuel"
| "parse_call_args (Suc n) H args p =
     obind (parse_expr n H p) (\<lambda>(arg, p1).
       case arg of
         None \<Rightarrow> Returns (None, p1)
       | Some a \<Rightarrow>
           (case cur_token p1 of
              None \<Rightarrow> Undefined
            | Some t \<Rightarrow>
                if tok_type t = 41 then Returns (Some (args @ [a]), p1)
                else if tok_type t \<noteq> 44 then Returns (None, p1)
                else let (ty, p2) = next_token H p1
                     in parse_call_args n H (args @ [a]) p2))"
| "parse_binop_rhs 0 H expr_prec lhs p = OutOfFuel"
| "parse_binop_rhs (Suc n) H expr_prec lhs p =
     obind (get_token_prec (cur_token p) p) (\<lambda>(tprec, p1).
       if tprec < expr_prec then Returns (Some lhs, p1)
       else case cur_token p1 of
              None \<Rightarrow> Undefined
            | Some t \<Rightarrow>
                let bop = tok_type t;
                    (ty, p2) = next_token H p1
                in obind (parse_primary n H p2) (\<lambda>(rhs, p3).
                     case rhs of
                       None \<Rightarrow> Returns (None, p3)
                     | Some r \<Rightarrow>
                         obind (get_token_prec (cur_token p3) p3) (\<lambda>(nprec, p4).
                           obind (if tprec < nprec then parse_binop_rhs n H (tprec + 1) r p4
                                  else Returns (Some r, p4)) (\<lambda>(rhs', p5).
                             case rhs' of
                               None \<Rightarrow> Returns (None, p5)
                             | Some r' \<Rightarrow>
                                 parse_binop_rhs n H expr_prec
                                   (BinaryExpr bop lhs r' (expr_span lhs)) p5))))"
| "parse_expr 0 H p = OutOfFuel"
| "parse_expr (Suc n) H p =
     obind (parse_primary n H p) (\<lambda>(lhs, p1).
       case lhs of
         None \<Rightarrow> Returns (None, p1)
       | Some l \<Rightarrow> parse_binop_rhs n H 0 l p1)"

text \<open>
  \<^verbatim>\<open>Parser::parse_assignment\<close> (lines 375-390). Every \<^verbatim>\<open>return\<close> statement of it
  returns \<^verbatim>\<open>nullptr\<close>, the last one after an expression was parsed.
\<close>

definition parse_assignment ::
  "nat \<Rightarrow> 'x parser_hpp \<Rightarrow> 'x Parser \<Rightarrow> (Stmt option \<times> 'x Parser) outcome" where
  "parse_assignment n H p =
     (case cur_token p of
        None \<Rightarrow> Undefined
      | Some t \<Rightarrow>
          if tok_type t \<noteq> tok_let H then Returns (None, p)
          else
            let (ty, p1) = next_token H p in
            obind (parse_id_expr H p1) (\<lambda>(ide, p2).
              if ide = None then Returns (None, p2)
              else case cur_token p2 of
                     None \<Rightarrow> Undefined
                   | Some t2 \<Rightarrow>
                       if tok_type t2 \<noteq> 61 then Returns (None, p2)
                       else obind (parse_expr n H p2) (\<lambda>(exp, p3).
                              if exp = None then Returns (None, p3)
                              else Returns (None, p3))))"

section \<open>Runs of bytes\<close>

text \<open>
  The bytes that the number branch of \<^verbatim>\<open>get_token\<close> takes: the test of lines 113
  and 118 on a byte of the input.
\<close>

definition digit_or_dot :: "char \<Rightarrow> bool" where
  "digit_or_dot c = (isdigit (of_char c) \<or> of_char c = (46 :: int))"

section \<open>Concrete inputs\<close>

text \<open>
  A header for the examples: the enumerators negative, as in the Kaleidoscope tutorial
  that the parser follows, and spans that count bytes.
\<close>

definition hpp0 :: "unit parser_hpp" where
  "hpp0 = \<lparr>tok_eof = -1, tok_fn = -2, tok_extern = -3, tok_identifier = -4,
      tok_number = -5, tok_op = -6, tok_let = -7,
      Span_ctor = (\<lambda>f a b c. \<lparr>span_begin = a, span_end = b\<rparr>),
      Span_newline = (\<lambda>s. s),
      Span_next = (\<lambda>s. s\<lparr>span_begin := span_begin s + 1\<rparr>),
      Span_mkfrom = (\<lambda>s b. \<lparr>span_begin = b, span_end = span_begin s\<rparr>),
      Span_rangeFrom = (\<lambda>s b. \<lparr>span_begin = span_begin b, span_end = span_end s\<rparr>)\<rparr>"

text \<open>
  A stream at its start, all state bits clear: over a buffer that holds the whole
  input, and over a stream buffer that has no putback position.
\<close>

definition stream_of :: "string \<Rightarrow> istream" where
  "stream_of bs =
     \<lparr>consumed = [], rest = bs, putback = 0, putback_max = length bs,
      eofbit = False, failbit = False, badbit = False\<rparr>"

definition unbuffered_of :: "string \<Rightarrow> istream" where
  "unbuffered_of bs =
     \<lparr>consumed = [], rest = bs, putback = 0, putback_max = 0,
      eofbit = False, failbit = False, badbit = False\<rparr>"

text \<open>
  A parser whose current token is a \<^verbatim>\<open>let\<close> token, with \<^verbatim>\<open>x = 1\<close> still to read.
\<close>

definition let_state :: "unit Parser" where
  "let_state =
     (Parser_ctor hpp0 ''f'' (stream_of '' x = 1''))
       \<lparr>cur_token := Some \<lparr>tok_type = -7, lexeme = ''let'',
                             tok_span = \<lparr>span_begin = 0, span_end = 3\<rparr>\<rparr>\<rparr>"

section \<open>Kind equality\<close>

lemma Kind_eq_iff: "Kind_eq a b \<longleftrightarrow> a = b"
  by (induction a b rule: Kind_eq_KArr_is_equal.induct(1)
        [where Q = "\<lambda>l r l' r'. KArr_is_equal l r l' r' \<longleftrightarrow> l = l' \<and> r = r'"])
     (simp_all add: KStar_is_equal_def)

lemma Kind_eq_refl: "Kind_eq k k"
  by (simp add: Kind_eq_iff)

lemma Kind_eq_sym: "Kind_eq a b = Kind_eq b a"
  by (auto simp add: Kind_eq_iff)

text \<open>
  C4. Kind equality is reflexive and symmetric; two Star kinds are equal; two Arrow
  kinds are equal exactly when their left components are equal and their right
  components are equal; a Star kind and an Arrow kind are never equal, whichever
  stands first.
\<close>

theorem Kind_eq_structural:
  "Kind_eq k k
   \<and> Kind_eq a b = Kind_eq b a
   \<and> Kind_eq KStar KStar
   \<and> Kind_eq (KArr l r) (KArr l' r') = (Kind_eq l l' \<and> Kind_eq r r')
   \<and> \<not> Kind_eq KStar (KArr l r)
   \<and> \<not> Kind_eq (KArr l r) KStar"
proof -
  have "Kind_eq a b = Kind_eq b a" by (rule Kind_eq_sym)
  moreover have "Kind_eq KStar KStar" by (simp add: KStar_is_equal_def)
  ultimately show ?thesis by (simp add: Kind_eq_refl)
qed

theorem Kind_eq_structural_witness:
  "Kind_eq (KArr KStar KStar) (KArr KStar KStar)
   \<and> \<not> Kind_eq (KArr KStar KStar) KStar
   \<and> \<not> Kind_eq KStar (KArr KStar KStar)
   \<and> \<not> Kind_eq (KArr (KArr KStar KStar) KStar) (KArr KStar KStar)"
  using Kind_eq_structural [of "KArr KStar KStar" KStar KStar KStar KStar KStar KStar]
        Kind_eq_structural [of KStar KStar KStar "KArr KStar KStar" KStar KStar KStar]
  by simp

section \<open>The kind of a type\<close>

lemma Type_kind_TyVar: "Type_kind ks (TyVar i k) = Some (Inr k)"
  by (simp add: Type_kind.simps TyVar_kind_def)

lemma Type_kind_TyCon: "Type_kind ks (TyCon i k) = Some (Inr k)"
  by (simp add: Type_kind.simps TyCon_kind_def)

lemma Type_kind_TyApp: "Type_kind ks (TyApp l r) = TyApp_kind ks l r"
  by (subst Type_kind.simps) simp

lemma Type_kind_TyGen: "Type_kind ks (TyGen i) = Some (TyGen_kind ks i)"
  by (simp add: Type_kind.simps)

lemma Type_kind_dispatch:
  "Type_kind ks t =
     (case t of TyVar i k \<Rightarrow> Some (Inr k)
              | TyCon i k \<Rightarrow> Some (Inr k)
              | TyApp l r \<Rightarrow> TyApp_kind ks l r
              | TyGen i \<Rightarrow> Some (TyGen_kind ks i))"
  by (cases t) (simp_all only: Type_kind_TyVar Type_kind_TyCon Type_kind_TyApp
      Type_kind_TyGen Type.case)

lemma Type_kind_returns: "Type_kind ks t \<noteq> None"
proof (induction t)
  case (TyApp l r)
  then show ?case
    by (auto simp add: Type_kind_TyApp split: option.splits sum.splits Kind.splits)
qed (simp_all add: Type_kind_TyVar Type_kind_TyCon Type_kind_TyGen)

text \<open>
  C5. \<^verbatim>\<open>Type::kind()\<close> returns the stored kind of a Var and of a Con; on
  \<open>App(lhs, rhs)\<close> whose \<open>lhs\<close> has an Arrow kind it returns the right-hand (result)
  component of that kind; on an \<open>App\<close> whose \<open>lhs\<close> has kind Star it fails with the
  invariant violation, which is none of the four unification failures.
\<close>

theorem Type_kind_by_variant:
  "Type_kind ks (TyVar i k) = Some (Inr k)
   \<and> Type_kind ks (TyCon i k) = Some (Inr k)
   \<and> (Type_kind ks l = Some (Inr (KArr a b)) \<longrightarrow> Type_kind ks (TyApp l r) = Some (Inr b))
   \<and> (Type_kind ks l = Some (Inr KStar)
        \<longrightarrow> Type_kind ks (TyApp l r) = Some (Inl InvariantViolation)
          \<and> InvariantViolation
              \<notin> {OccursCheckError, KindMismatchError, ConstructorMismatchError, UnifyError})"
  by (simp add: Type_kind_TyVar Type_kind_TyCon Type_kind_TyApp)

theorem Type_kind_by_variant_witness:
  "Type_kind [] (TyCon ''List'' (KArr KStar KStar)) = Some (Inr (KArr KStar KStar))
   \<and> Type_kind [] (TyApp (TyCon ''List'' (KArr KStar KStar)) (TyVar ''a'' KStar))
       = Some (Inr KStar)
   \<and> Type_kind [] (TyVar ''a'' KStar) = Some (Inr KStar)
   \<and> Type_kind [] (TyApp (TyVar ''a'' KStar) (TyCon ''Int'' KStar))
       = Some (Inl InvariantViolation)"
  using Type_kind_by_variant [of "[]" "''List''" "KArr KStar KStar"
          "TyCon ''List'' (KArr KStar KStar)" KStar KStar "TyVar ''a'' KStar"]
        Type_kind_by_variant [of "[]" "''a''" KStar "TyVar ''a'' KStar" KStar KStar
          "TyCon ''Int'' KStar"]
  by simp

text \<open>
  C3. For every Gen placeholder in the body of a scheme whose indices are dense,
  \<^verbatim>\<open>Type::kind()\<close> on that Gen, taken in the scheme, returns the kind recorded at
  the Gen's index in the kind list of the scheme.
\<close>

theorem Type_kind_TyGen_in_scheme:
  assumes "Scheme_dense sc" and "i \<in> set (Type_gens (ty sc))"
  shows "Type_kind (kinds sc) (TyGen i) = Some (Inr (kinds sc ! nat (sint i)))"
proof -
  from assms have pos: "0 \<le> sint i" by (simp add: Scheme_dense_def)
  from assms have "nat (sint i) \<in> set [0..<length (kinds sc)]"
    unfolding Scheme_dense_def by (metis (no_types, lifting) image_eqI set_map)
  then have "nat (sint i) < length (kinds sc)" by simp
  with pos show ?thesis by (simp add: Type_kind_TyGen TyGen_kind_def)
qed

theorem Type_kind_TyGen_in_scheme_witness:
  "Scheme_dense \<lparr>kinds = [KStar, KArr KStar KStar], ty = TyApp (TyGen 1) (TyGen 0)\<rparr>
   \<and> 1 \<in> set (Type_gens (ty \<lparr>kinds = [KStar, KArr KStar KStar],
                                 ty = TyApp (TyGen 1) (TyGen 0)\<rparr>))
   \<and> Type_kind (kinds \<lparr>kinds = [KStar, KArr KStar KStar], ty = TyApp (TyGen 1) (TyGen 0)\<rparr>)
       (TyGen 1) = Some (Inr (KArr KStar KStar))"
proof -
  let ?sc = "\<lparr>kinds = [KStar, KArr KStar KStar], ty = TyApp (TyGen 1) (TyGen 0)\<rparr>"
  have d: "Scheme_dense ?sc" by (auto simp add: Scheme_dense_def)
  have m: "1 \<in> set (Type_gens (ty ?sc))" by simp
  from Type_kind_TyGen_in_scheme [OF d m] d m show ?thesis by simp
qed

section \<open>Rendering\<close>

lemma Kind_to_string_KStar: "Kind_to_string KStar = ''*''"
  by (simp add: Kind_to_string.simps KStar_to_string_def)

lemma Kind_to_string_KArr: "Kind_to_string (KArr l r) = KArr_to_string l r"
  by (subst Kind_to_string.simps) simp

text \<open>
  C6. \<^verbatim>\<open>Kind::to_string\<close> and \<^verbatim>\<open>Type::to_string\<close> return a string on every
  variant: a Star and an Arrow kind go to the Star and the Arrow printer, and each of
  Var, Con, App and Gen goes to its own printer, so the dispatch never runs past its
  last test.
\<close>

theorem to_string_every_variant:
  "Kind_to_string KStar = KStar_to_string
   \<and> Kind_to_string (KArr kl kr) = KArr_to_string kl kr
   \<and> Type_to_string P (TyVar i k) = Some (TyVar_to_string P i k)
   \<and> Type_to_string P (TyCon i k) = Some (TyCon_to_string P i k)
   \<and> Type_to_string P (TyApp l r) = Some (TyApp_to_string P l r)
   \<and> Type_to_string P (TyGen n) = Some (TyGen_to_string P n)
   \<and> Type_to_string P t \<noteq> None"
proof -
  have "Type_to_string P t \<noteq> None"
    by (cases t) (simp_all add: Type_to_string_def FALLTHROUGH_TYPE_def)
  then show ?thesis
    by (simp add: Kind_to_string_KStar Kind_to_string_KArr KStar_to_string_def
        Type_to_string_def FALLTHROUGH_TYPE_def)
qed

theorem to_string_every_variant_witness:
  "Kind_to_string (KArr (KArr KStar KStar) KStar) = ''(* -> *) -> *''
   \<and> Kind_to_string (KArr KStar (KArr KStar KStar)) = ''* -> * -> *''
   \<and> Type_to_string
        \<lparr>TyVar_to_string = (\<lambda>i k. i), TyCon_to_string = (\<lambda>i k. i),
         TyApp_to_string = (\<lambda>l r. ''app''), TyGen_to_string = (\<lambda>n. ''gen'')\<rparr>
        (TyGen 0) = Some ''gen''"
  using to_string_every_variant [of "KArr KStar KStar" KStar
          "\<lparr>TyVar_to_string = (\<lambda>i k. i), TyCon_to_string = (\<lambda>i k. i),
            TyApp_to_string = (\<lambda>l r. ''app''), TyGen_to_string = (\<lambda>n. ''gen'')\<rparr>"
          "''a''" KStar "TyGen 0" "TyGen 0" 0 "TyGen 0"]
        to_string_every_variant [of KStar "KArr KStar KStar"
          "\<lparr>TyVar_to_string = (\<lambda>i k. i), TyCon_to_string = (\<lambda>i k. i),
            TyApp_to_string = (\<lambda>l r. ''app''), TyGen_to_string = (\<lambda>n. ''gen'')\<rparr>"
          "''a''" KStar "TyGen 0" "TyGen 0" 0 "TyGen 0"]
  by (simp add: Kind_to_string_KStar Kind_to_string_KArr)

section \<open>The lexer\<close>

lemma of_char_eq_iff: "(of_char c :: int) = n \<Longrightarrow> c = char_of n"
  by (metis char_of_char)

lemma of_char_int_range: "0 \<le> (of_char c :: int) \<and> (of_char c :: int) < 256"
  by (metis of_char_mod_256 pos_mod_sign pos_mod_bound zero_less_numeral)

lemma of_char_neq_EOF: "(of_char c :: int) \<noteq> EOF"
  using of_char_int_range [of c] by (simp add: EOF_def)

lemma not_class_EOF:
  "\<not> isspace EOF" "\<not> isalpha EOF" "\<not> isdigit EOF" "\<not> isalnum EOF" "EOF \<noteq> 46" "EOF \<noteq> 35"
  "EOF \<noteq> 0xc2" "EOF \<noteq> 0xa0"
  by (simp_all add: isspace_def isalpha_def isdigit_def isalnum_def EOF_def)

lemma istream_peek_position:
  "consumed (snd (istream_peek s)) = consumed s \<and> rest (snd (istream_peek s)) = rest s
   \<and> putback (snd (istream_peek s)) = putback s
   \<and> putback_max (snd (istream_peek s)) = putback_max s"
  by (simp add: istream_peek_def split: list.splits)

lemma istream_peek_char:
  "fst (istream_peek s) \<noteq> EOF \<Longrightarrow>
     good s \<and> istream_peek s = (of_char (hd (rest s)), s) \<and> rest s \<noteq> []"
  by (auto simp add: istream_peek_def split: list.splits if_splits)

lemma istream_peek_good:
  "good s \<Longrightarrow> rest s = c # cs \<Longrightarrow> istream_peek s = (of_char c, s)"
  by (simp add: istream_peek_def)

lemma istream_get_good:
  "good s \<Longrightarrow> rest s = c # cs
   \<Longrightarrow> istream_get s =
         (of_char c, s\<lparr>consumed := c # consumed s, rest := cs,
                       putback := min (putback_max s) (Suc (putback s))\<rparr>)"
  by (simp add: istream_get_def)

lemmas lexer_eval =
  is_space_def istream_peek_def istream_get_def istream_unget_def istream_eof_def good_def
  isspace_def isalpha_def isdigit_def isalnum_def isascii_def EOF_def to_char_def
  getc_def peek_digit_or_dot_def get_token_unknown_def
  skip_space.simps word_loop.simps number_loop.simps comment_loop.simps get_token.simps
  char_of_def Let_def

text \<open>
  C9. On a stream whose buffer has no putback position, with the byte 0xC2 and then the
  letter x to read, \<^verbatim>\<open>is_space\<close> returns false although the read position has moved:
  the byte 0xC2 was consumed, \<^verbatim>\<open>unget\<close> gave nothing back and set \<^verbatim>\<open>badbit\<close>.
\<close>

theorem is_space_no_putback:
  "is_space (unbuffered_of [CHR 0xC2, CHR ''x''])
     = (False, \<lparr>consumed = [CHR 0xC2], rest = ''x'', putback = 0, putback_max = 0,
                eofbit = False, failbit = False, badbit = True\<rparr>)
   \<and> consumed (unbuffered_of [CHR 0xC2, CHR ''x'']) = []
   \<and> length (consumed (snd (is_space (unbuffered_of [CHR 0xC2, CHR ''x'']))))
       \<noteq> length (consumed (unbuffered_of [CHR 0xC2, CHR ''x'']))"
  by (simp add: unbuffered_of_def lexer_eval)

text \<open>
  The same on every good stream whose buffer keeps no byte for giving back, when the
  input begins with 0xC2 and a byte other than 0xA0.
\<close>

lemma is_space_unget_fails:
  assumes "good s" and "rest s = CHR 0xC2 # c # cs" and "c \<noteq> CHR 0xA0"
    and "putback_max s = 0"
  shows "fst (is_space s) = False
       \<and> consumed (snd (is_space s)) = CHR 0xC2 # consumed s
       \<and> rest (snd (is_space s)) = c # cs
       \<and> badbit (snd (is_space s))"
proof -
  have c: "(of_char c :: int) \<noteq> 0xa0"
    using assms(3) by (auto dest!: of_char_eq_iff simp add: char_of_def)
  let ?s3 = "s\<lparr>consumed := CHR 0xC2 # consumed s, rest := c # cs,
                 putback := min (putback_max s) (Suc (putback s))\<rparr>"
  have g3: "good ?s3" using assms(1) by (simp add: good_def)
  have "is_space s = (False, istream_unget ?s3)"
    using assms(1,2) c g3
    by (simp add: is_space_def istream_peek_good istream_get_good isspace_def)
  moreover have "istream_unget ?s3 = ?s3\<lparr>eofbit := False, badbit := True\<rparr>"
    using g3 assms(4) by (simp add: istream_unget_def good_def Let_def)
  ultimately show ?thesis by simp
qed

text \<open>
  On a stream whose buffer keeps at least the byte it handed out last, \<^verbatim>\<open>is_space\<close>
  does leave the read position where it was whenever it returns false: the bytes read
  and the bytes still to read are what they were before the call. When it returns
  true, either nothing was consumed, or the input began with the bytes 0xC2 0xA0 and
  exactly the byte 0xC2 was consumed.
\<close>

theorem is_space_position:
  assumes "is_space s = (b, s')" and "0 < putback_max s"
  shows "(\<not> b \<longrightarrow> consumed s' = consumed s \<and> rest s' = rest s)
       \<and> (b \<longrightarrow> (consumed s' = consumed s \<and> rest s' = rest s)
               \<or> (\<exists>xs. rest s = CHR 0xC2 # CHR 0xA0 # xs
                       \<and> rest s' = CHR 0xA0 # xs
                       \<and> consumed s' = CHR 0xC2 # consumed s))"
proof -
  obtain c1 s1 where p1: "istream_peek s = (c1, s1)" by (cases "istream_peek s")
  have pos1: "consumed s1 = consumed s" "rest s1 = rest s" "putback_max s1 = putback_max s"
    using istream_peek_position [of s] p1 by simp_all
  show ?thesis
  proof (cases "isspace c1")
    case True
    with assms p1 pos1 show ?thesis by (simp add: is_space_def)
  next
    case sp: False
    obtain c2 s2 where p2: "istream_peek s1 = (c2, s2)" by (cases "istream_peek s1")
    have pos2: "consumed s2 = consumed s" "rest s2 = rest s"
      using istream_peek_position [of s1] p2 pos1 by simp_all
    show ?thesis
    proof (cases "c2 = 0xc2")
      case False
      with assms p1 p2 sp pos2 show ?thesis by (simp add: is_space_def)
    next
      case True
      then have "fst (istream_peek s1) \<noteq> EOF" using p2 by (simp add: EOF_def)
      from istream_peek_char [OF this] p2 True
      have g1: "good s1" and s2: "s2 = s1" and hd: "of_char (hd (rest s1)) = (0xc2 :: int)"
        and ne: "rest s1 \<noteq> []" by simp_all
      from hd have "hd (rest s1) = CHR 0xC2"
        by (auto dest!: of_char_eq_iff simp add: char_of_def)
      with ne obtain cs where r1: "rest s1 = CHR 0xC2 # cs" by (cases "rest s1") auto
      let ?s3 = "s1\<lparr>consumed := CHR 0xC2 # consumed s1, rest := cs,
                     putback := min (putback_max s1) (Suc (putback s1))\<rparr>"
      have g3: "istream_get s2 = (0xc2, ?s3)"
        using istream_get_good [OF g1 r1] s2 by simp
      have good3: "good ?s3" using g1 by (simp add: good_def)
      have pb3: "0 < putback ?s3" using assms(2) pos1 by simp
      obtain c4 s4 where p4: "istream_peek ?s3 = (c4, s4)" by (cases "istream_peek ?s3")
      have res: "is_space s = (if c4 = 0xa0 then (True, s4) else (False, istream_unget s4))"
        using p1 p2 sp True g3 p4 by (simp add: is_space_def)
      show ?thesis
      proof (cases "c4 = 0xa0")
        case a0: True
        then have "fst (istream_peek ?s3) \<noteq> EOF" using p4 by (simp add: EOF_def)
        from istream_peek_char [OF this] p4 a0
        have s4: "s4 = ?s3" and hd4: "of_char (hd cs) = (0xa0 :: int)" and ne4: "cs \<noteq> []"
          by simp_all
        from hd4 have "hd cs = CHR 0xA0" by (auto dest!: of_char_eq_iff simp add: char_of_def)
        with ne4 obtain xs where "cs = CHR 0xA0 # xs" by (cases cs) auto
        with res a0 assms(1) s4 r1 pos1 show ?thesis by auto
      next
        case False
        have "consumed s4 = consumed ?s3 \<and> rest s4 = rest ?s3 \<and> putback s4 = putback ?s3"
          using istream_peek_position [of ?s3] p4 by simp
        moreover have "\<not> failbit s4 \<and> \<not> badbit s4"
          using p4 good3 by (auto simp add: istream_peek_def good_def split: list.splits)
        ultimately have "consumed (istream_unget s4) = consumed s1
            \<and> rest (istream_unget s4) = rest s1"
          using r1 pb3 by (simp add: istream_unget_def good_def Let_def)
        with res False assms(1) pos1 show ?thesis by simp
      qed
    qed
  qed
qed

theorem is_space_position_witness:
  "is_space (stream_of [CHR 0xC2, CHR ''x'']) = (False, stream_of [CHR 0xC2, CHR ''x''])
   \<and> is_space (stream_of [CHR 0xC2, CHR 0xA0])
       = (True, \<lparr>consumed = [CHR 0xC2], rest = [CHR 0xA0], putback = 1, putback_max = 2,
                 eofbit = False, failbit = False, badbit = False\<rparr>)
   \<and> 0 < putback_max (stream_of [CHR 0xC2, CHR ''x''])
   \<and> consumed (stream_of [CHR 0xC2, CHR ''x'']) = []
   \<and> rest (stream_of [CHR 0xC2, CHR ''x'']) = [CHR 0xC2, CHR ''x'']"
proof -
  have a: "is_space (stream_of [CHR 0xC2, CHR ''x''])
      = (False, stream_of [CHR 0xC2, CHR ''x''])"
    by (simp add: stream_of_def lexer_eval)
  have b: "is_space (stream_of [CHR 0xC2, CHR 0xA0])
       = (True, \<lparr>consumed = [CHR 0xC2], rest = [CHR 0xA0], putback = 1, putback_max = 2,
                 eofbit = False, failbit = False, badbit = False\<rparr>)"
    by (simp add: stream_of_def lexer_eval)
  have m: "0 < putback_max (stream_of [CHR 0xC2, CHR ''x''])"
       "0 < putback_max (stream_of [CHR 0xC2, CHR 0xA0])"
    by (simp_all add: stream_of_def)
  from a b m is_space_position [OF a m(1)] is_space_position [OF b m(2)] show ?thesis
    by (simp add: stream_of_def)
qed

lemma digit_or_dot_class:
  "digit_or_dot c \<Longrightarrow> \<not> isspace (of_char c) \<and> \<not> isalpha (of_char c)
     \<and> (of_char c :: int) \<noteq> 0xc2"
  by (auto simp add: digit_or_dot_def isdigit_def isspace_def isalpha_def)

lemma peek_digit_or_dot_good:
  "good s \<Longrightarrow> rest s = c # cs \<Longrightarrow> peek_digit_or_dot s = (digit_or_dot c, s)"
  by (simp add: peek_digit_or_dot_def istream_peek_good digit_or_dot_def)

lemma peek_digit_or_dot_end:
  "good s \<Longrightarrow> rest s = [] \<Longrightarrow>
     fst (peek_digit_or_dot s) = False \<and> rest (snd (peek_digit_or_dot s)) = []
     \<and> consumed (snd (peek_digit_or_dot s)) = consumed s"
  by (simp add: peek_digit_or_dot_def istream_peek_def good_def not_class_EOF)

lemma is_space_digit_or_dot:
  "good s \<Longrightarrow> rest s = c # cs \<Longrightarrow> digit_or_dot c \<Longrightarrow> is_space s = (False, s)"
  using digit_or_dot_class [of c]
  by (simp add: is_space_def istream_peek_good)

lemma skip_space_digit_or_dot:
  "good (src p) \<Longrightarrow> rest (src p) = c # cs \<Longrightarrow> digit_or_dot c \<Longrightarrow> skip_space H p = p"
  by (subst skip_space.simps) (simp add: is_space_digit_or_dot)

lemma getc_good:
  assumes "good (src p)" and "rest (src p) = c # cs"
  shows "\<exists>p1. getc H p = (of_char c, p1)
           \<and> src p1 = (src p)\<lparr>consumed := c # consumed (src p), rest := cs,
          putback := min (putback_max (src p)) (Suc (putback (src p)))\<rparr>
           \<and> buffer p1 = buffer p \<and> cur_token p1 = cur_token p
           \<and> binop_prec p1 = binop_prec p"
  using assms by (simp add: getc_def istream_get_good Let_def)

lemma number_loop_run:
  assumes "good (src p)" and "rest (src p) = d # ds @ after"
    and "\<forall>c \<in> set ds. digit_or_dot c"
    and "after = [] \<or> \<not> digit_or_dot (hd after)"
  shows "\<exists>p'. number_loop H p acc = (acc @ d # ds, p')
           \<and> rest (src p') = after
           \<and> consumed (src p') = rev (d # ds) @ consumed (src p)
           \<and> buffer p' = buffer p \<and> cur_token p' = cur_token p
           \<and> binop_prec p' = binop_prec p"
  using assms
proof (induction ds arbitrary: p acc d)
  case Nil
  from getc_good [OF Nil(1), of d after H] Nil(2) obtain p1 where
    g: "getc H p = (of_char d, p1)" and
    s1: "src p1 = (src p)\<lparr>consumed := d # consumed (src p), rest := after,
          putback := min (putback_max (src p)) (Suc (putback (src p)))\<rparr>" and
    fr: "buffer p1 = buffer p" "cur_token p1 = cur_token p" "binop_prec p1 = binop_prec p"
    by auto
  have g1: "good (src p1)" using Nil(1) s1 by (simp add: good_def)
  have pk: "fst (peek_digit_or_dot (src p1)) = False
      \<and> rest (snd (peek_digit_or_dot (src p1))) = after
      \<and> consumed (snd (peek_digit_or_dot (src p1))) = d # consumed (src p)"
  proof (cases after)
    case Nil
    with peek_digit_or_dot_end [OF g1] s1 show ?thesis by simp
  next
    case (Cons a as)
    with Nil.prems(4) have "\<not> digit_or_dot a" by simp
    with peek_digit_or_dot_good [OF g1, of a as] s1 Cons show ?thesis by simp
  qed
  show ?case
    by (subst number_loop.simps) (use g pk fr in \<open>simp add: split_beta Let_def\<close>)
next
  case (Cons e es)
  from getc_good [OF Cons.prems(1), of d "(e # es) @ after" H] Cons.prems(2) obtain p1 where
    g: "getc H p = (of_char d, p1)" and
    s1: "src p1 = (src p)\<lparr>consumed := d # consumed (src p), rest := e # es @ after,
          putback := min (putback_max (src p)) (Suc (putback (src p)))\<rparr>" and
    fr: "buffer p1 = buffer p" "cur_token p1 = cur_token p" "binop_prec p1 = binop_prec p"
    by auto
  have g1: "good (src p1)" using Cons.prems(1) s1 by (simp add: good_def)
  have r1: "rest (src p1) = e # es @ after" using s1 by simp
  have e: "digit_or_dot e" using Cons.prems(3) by simp
  have pk: "peek_digit_or_dot (src p1) = (True, src p1)"
    using peek_digit_or_dot_good [OF g1 r1] e by simp
  have "\<exists>p'. number_loop H p1 (acc @ [d]) = ((acc @ [d]) @ e # es, p')
           \<and> rest (src p') = after
           \<and> consumed (src p') = rev (e # es) @ consumed (src p1)
           \<and> buffer p' = buffer p1 \<and> cur_token p' = cur_token p1
           \<and> binop_prec p' = binop_prec p1"
    by (rule Cons.IH [OF g1 r1]) (use Cons.prems in auto)
  then obtain p' where
    "number_loop H p1 (acc @ [d]) = ((acc @ [d]) @ e # es, p')"
    "rest (src p') = after" "consumed (src p') = rev (e # es) @ consumed (src p1)"
    "buffer p' = buffer p1" "cur_token p' = cur_token p1" "binop_prec p' = binop_prec p1"
    by blast
  moreover have "number_loop H p acc = number_loop H p1 (acc @ [d])"
    by (subst number_loop.simps) (simp add: g pk)
  ultimately show ?case using fr s1 by simp
qed

text \<open>
  C10. On a parser with an empty token buffer and a good stream whose input begins with
  a digit or a dot, \<^verbatim>\<open>get_token\<close> consumes the longest run of digits and dots at
  the start of the input and returns it as the lexeme of one \<^verbatim>\<open>tok_number\<close> token,
  however many dots the run holds.
\<close>

theorem get_token_number:
  assumes "buffer p = []" and "good (src p)"
    and "rest (src p) = d # ds @ after"
    and "\<forall>c \<in> set (d # ds). digit_or_dot c"
    and "after = [] \<or> \<not> digit_or_dot (hd after)"
  shows "tok_type (fst (get_token H p)) = tok_number H
       \<and> lexeme (fst (get_token H p)) = d # ds
       \<and> rest (src (snd (get_token H p))) = after
       \<and> consumed (src (snd (get_token H p))) = rev (d # ds) @ consumed (src p)
       \<and> buffer (snd (get_token H p)) = []"
proof -
  have d: "digit_or_dot d" using assms(4) by simp
  have sk: "skip_space H p = p"
    by (rule skip_space_digit_or_dot [OF assms(2) assms(3) d])
  have ne: "\<not> istream_eof (src p)" using assms(2) by (simp add: istream_eof_def good_def)
  have pk: "istream_peek (src p) = (of_char d, src p)"
    by (rule istream_peek_good [OF assms(2) assms(3)])
  have al: "\<not> isalpha (of_char d)" using digit_or_dot_class [OF d] by simp
  have pd: "peek_digit_or_dot (src p) = (True, src p)"
    using peek_digit_or_dot_good [OF assms(2) assms(3)] d by simp
  from number_loop_run [OF assms(2) assms(3) _ assms(5), of H "[]"] assms(4)
  obtain p' where nl: "number_loop H p [] = (d # ds, p')"
    and r: "rest (src p') = after" "consumed (src p') = rev (d # ds) @ consumed (src p)"
    and b: "buffer p' = buffer p" by auto
  have "get_token H p =
      (\<lparr>tok_type = tok_number H, lexeme = d # ds,
        tok_span = Span_mkfrom H (span p') (span_begin (span p) + 1)\<rparr>, p')"
    by (subst get_token.simps) (simp add: assms(1) sk ne pk al pd nl Let_def)
  with r b assms(1) show ?thesis by simp
qed

theorem get_token_number_witness:
  "tok_type (fst (get_token hpp0 (Parser_ctor hpp0 ''f'' (stream_of ''1.2.3+x'')))) = -5
   \<and> lexeme (fst (get_token hpp0 (Parser_ctor hpp0 ''f'' (stream_of ''1.2.3+x'')))) = ''1.2.3''
   \<and> rest (src (snd (get_token hpp0 (Parser_ctor hpp0 ''f'' (stream_of ''1.2.3+x''))))) = ''+x''
   \<and> tok_type (fst (get_token hpp0 (Parser_ctor hpp0 ''f'' (stream_of ''.'')))) = -5
   \<and> lexeme (fst (get_token hpp0 (Parser_ctor hpp0 ''f'' (stream_of ''.'')))) = ''.''
   \<and> rest (src (snd (get_token hpp0 (Parser_ctor hpp0 ''f'' (stream_of ''.''))))) = []"
proof -
  let ?p = "Parser_ctor hpp0 ''f'' (stream_of ''1.2.3+x'')"
  let ?q = "Parser_ctor hpp0 ''f'' (stream_of ''.'')"
  have 1: "buffer ?p = []" "good (src ?p)" "rest (src ?p) = CHR ''1'' # ''.2.3'' @ ''+x''"
    "\<forall>c \<in> set (CHR ''1'' # ''.2.3''). digit_or_dot c"
    "''+x'' = [] \<or> \<not> digit_or_dot (hd ''+x'')"
    by (simp_all add: Parser_ctor_def stream_of_def good_def digit_or_dot_def isdigit_def)
  have 2: "buffer ?q = []" "good (src ?q)" "rest (src ?q) = CHR ''.'' # [] @ []"
    "\<forall>c \<in> set (CHR ''.'' # []). digit_or_dot c"
    "[] = [] \<or> \<not> digit_or_dot (hd [])"
    by (simp_all add: Parser_ctor_def stream_of_def good_def digit_or_dot_def isdigit_def)
  from get_token_number [OF 1, of hpp0] get_token_number [OF 2, of hpp0] show ?thesis
    by (simp add: hpp0_def)
qed

section \<open>Assignments\<close>

lemma next_token_cur: "\<exists>t. cur_token (snd (next_token H p)) = Some t"
  by (simp add: next_token_def split_beta)

lemma parse_id_expr_cases:
  assumes "cur_token p = Some t"
  shows "parse_id_expr H p = Returns (None, p)
       \<or> (\<exists>v t'. parse_id_expr H p = Returns (Some v, snd (next_token H p))
              \<and> cur_token (snd (next_token H p)) = Some t')"
  using assms next_token_cur [of H p]
  by (auto simp add: parse_id_expr_def split_beta Let_def)

lemma parse_primary_other:
  assumes "cur_token p = Some t"
    and "tok_type t \<noteq> tok_identifier H" and "tok_type t \<noteq> tok_number H"
    and "tok_type t \<noteq> 40"
  shows "parse_primary (Suc n) H p = Returns (None, p)"
  using assms by simp

lemma parse_expr_other:
  assumes "cur_token p = Some t"
    and "tok_type t \<noteq> tok_identifier H" and "tok_type t \<noteq> tok_number H"
    and "tok_type t \<noteq> 40"
  shows "parse_expr (Suc (Suc n)) H p = Returns (None, p)"
  using parse_primary_other [OF assms] by (simp add: obind_def)

lemma parse_assignment_only_null:
  "parse_assignment m H p = Returns (r, p') \<Longrightarrow> r = None"
  by (auto simp add: parse_assignment_def obind_def split_beta Let_def
      split: option.splits if_splits outcome.splits)

text \<open>
  C7. On a parser that has a current token, \<^verbatim>\<open>parse_assignment\<close> returns, and what
  it returns is a null pointer, also after a \<^verbatim>\<open>let\<close> token, an identifier and an
  \<^verbatim>\<open>=\<close> token; whatever the bound on the depth, a call that returns returns a null
  pointer. The enumerators \<^verbatim>\<open>tok_identifier\<close> and \<^verbatim>\<open>tok_number\<close> are not the
  character \<^verbatim>\<open>=\<close>.
\<close>

theorem parse_assignment_null:
  assumes "cur_token p \<noteq> None"
    and "tok_identifier H \<noteq> 61" and "tok_number H \<noteq> 61"
  shows "(\<exists>p'. parse_assignment (Suc (Suc n)) H p = Returns (None, p'))
       \<and> (\<forall>m r p'. parse_assignment m H p = Returns (r, p') \<longrightarrow> r = None)"
proof
  from assms(1) obtain t where t: "cur_token p = Some t" by auto
  show "\<exists>p'. parse_assignment (Suc (Suc n)) H p = Returns (None, p')"
  proof (cases "tok_type t \<noteq> tok_let H")
    case True
    with t show ?thesis by (simp add: parse_assignment_def)
  next
    case False
    obtain ty p1 where nt: "next_token H p = (ty, p1)" by (cases "next_token H p")
    from next_token_cur [of H p] nt obtain t1 where t1: "cur_token p1 = Some t1" by auto
    have step: "parse_assignment (Suc (Suc n)) H p =
        obind (parse_id_expr H p1) (\<lambda>(ide, p2).
          if ide = None then Returns (None, p2)
          else case cur_token p2 of
                 None \<Rightarrow> Undefined
               | Some t2 \<Rightarrow>
                   if tok_type t2 \<noteq> 61 then Returns (None, p2)
                   else obind (parse_expr (Suc (Suc n)) H p2) (\<lambda>(exp, p3).
                          if exp = None then Returns (None, p3)
                          else Returns (None, p3)))"
      using t False nt by (simp add: parse_assignment_def)
    from parse_id_expr_cases [OF t1, of H] show ?thesis
    proof
      assume "parse_id_expr H p1 = Returns (None, p1)"
      with step show ?thesis by (simp add: obind_def)
    next
      assume "\<exists>v t'. parse_id_expr H p1 = Returns (Some v, snd (next_token H p1))
                \<and> cur_token (snd (next_token H p1)) = Some t'"
      then obtain v t2 where
        pid: "parse_id_expr H p1 = Returns (Some v, snd (next_token H p1))" and
        t2: "cur_token (snd (next_token H p1)) = Some t2" by blast
      show ?thesis
      proof (cases "tok_type t2 \<noteq> 61")
        case True
        with step pid t2 show ?thesis by (simp add: obind_def)
      next
        case False
        then have ty2: "tok_type t2 = 61" by simp
        have "parse_expr (Suc (Suc n)) H (snd (next_token H p1))
            = Returns (None, snd (next_token H p1))"
          by (rule parse_expr_other [OF t2]) (use ty2 assms in simp_all)
        with step pid t2 ty2 show ?thesis by (simp add: obind_def)
      qed
    qed
  qed
next
  show "\<forall>m r p'. parse_assignment m H p = Returns (r, p') \<longrightarrow> r = None"
    using parse_assignment_only_null by blast
qed

lemma let_state_run:
  "\<exists>p'. parse_assignment 2 hpp0 let_state = Returns (None, p') \<and> rest (src p') = '' 1''
     \<and> cur_token p' = Some \<lparr>tok_type = 61, lexeme = ''='', tok_span = \<lparr>span_begin = 3, span_end = 4\<rparr>\<rparr>"
  by (simp add: let_state_def parse_assignment_def parse_id_expr_def next_token_def
       obind_def Parser_ctor_def stream_of_def hpp0_def lexer_eval numeral_2_eq_2)

theorem parse_assignment_null_witness:
  "cur_token let_state \<noteq> None \<and> tok_identifier hpp0 \<noteq> 61 \<and> tok_number hpp0 \<noteq> 61
   \<and> (\<exists>p'. parse_assignment 2 hpp0 let_state = Returns (None, p')
          \<and> rest (src p') = '' 1''
          \<and> cur_token p' = Some \<lparr>tok_type = 61, lexeme = ''='',
                                  tok_span = \<lparr>span_begin = 3, span_end = 4\<rparr>\<rparr>)"
proof -
  have h: "cur_token let_state \<noteq> None" "tok_identifier hpp0 \<noteq> 61" "tok_number hpp0 \<noteq> 61"
    by (simp_all add: let_state_def hpp0_def)
  from parse_assignment_null [OF h, of 0] let_state_run h show ?thesis
    by (simp add: numeral_2_eq_2)
qed

section \<open>The precedence of a token\<close>

text \<open>
  For a token that is there, \<^verbatim>\<open>get_token_prec\<close> returns -1 when the type of the token
  is no ASCII character or has no positive entry in \<^verbatim>\<open>binop_prec\<close>, and the entry
  otherwise; looking up a character that is not in the table adds it with the value
  0, and nothing else of the parser changes.
\<close>

theorem get_token_prec_value:
  "get_token_prec (Some t) p =
     Returns
       (if isascii (tok_type t)
        then (case binop_prec p (char_of (tok_type t)) of
                None \<Rightarrow> -1
              | Some v \<Rightarrow> if v \<le> 0 then -1 else v)
        else -1,
        if isascii (tok_type t) \<and> binop_prec p (char_of (tok_type t)) = None
        then p\<lparr>binop_prec := (binop_prec p)(char_of (tok_type t) \<mapsto> 0)\<rparr>
        else p)"
  by (simp add: get_token_prec_def Let_def split: option.splits)

theorem get_token_prec_value_witness:
  "get_token_prec
     (Some \<lparr>tok_type = 43, lexeme = ''+'', tok_span = \<lparr>span_begin = 0, span_end = 0\<rparr>\<rparr>)
     (Parser_ctor hpp0 ''f'' (stream_of []))
     = Returns (20, Parser_ctor hpp0 ''f'' (stream_of []))
   \<and> get_token_prec
     (Some \<lparr>tok_type = 120, lexeme = ''x'', tok_span = \<lparr>span_begin = 0, span_end = 0\<rparr>\<rparr>)
     (Parser_ctor hpp0 ''f'' (stream_of []))
     = Returns (-1, (Parser_ctor hpp0 ''f'' (stream_of []))
                      \<lparr>binop_prec := [CHR ''<'' \<mapsto> 10, CHR ''+'' \<mapsto> 20, CHR ''-'' \<mapsto> 20,
                                      CHR ''*'' \<mapsto> 40, CHR ''x'' \<mapsto> 0]\<rparr>)
   \<and> get_token_prec
     (Some \<lparr>tok_type = -1, lexeme = [], tok_span = \<lparr>span_begin = 0, span_end = 0\<rparr>\<rparr>)
     (Parser_ctor hpp0 ''f'' (stream_of []))
     = Returns (-1, Parser_ctor hpp0 ''f'' (stream_of []))"
  using get_token_prec_value
          [of "\<lparr>tok_type = 43, lexeme = ''+'', tok_span = \<lparr>span_begin = 0, span_end = 0\<rparr>\<rparr>"
              "Parser_ctor hpp0 ''f'' (stream_of [])"]
        get_token_prec_value
          [of "\<lparr>tok_type = 120, lexeme = ''x'', tok_span = \<lparr>span_begin = 0, span_end = 0\<rparr>\<rparr>"
              "Parser_ctor hpp0 ''f'' (stream_of [])"]
        get_token_prec_value
          [of "\<lparr>tok_type = -1, lexeme = [], tok_span = \<lparr>span_begin = 0, span_end = 0\<rparr>\<rparr>"
              "Parser_ctor hpp0 ''f'' (stream_of [])"]
  by (simp add: Parser_ctor_def isascii_def char_of_def)

section \<open>Further properties of the lexer\<close>

text \<open>
  A token that \<^verbatim>\<open>peek_token\<close> has put into the buffer is what \<^verbatim>\<open>get_token\<close> returns
  next: the front of the buffer is taken off, and the stream and the rest of the parser
  stay as they are.
\<close>

theorem get_token_buffered:
  "buffer p = t # ts \<Longrightarrow> get_token H p = (t, p\<lparr>buffer := ts\<rparr>)"
  by (subst get_token.simps) simp

theorem get_token_buffered_witness:
  "get_token hpp0 (let_state\<lparr>buffer := [\<lparr>tok_type = 61, lexeme = ''='',
                                          tok_span = \<lparr>span_begin = 3, span_end = 4\<rparr>\<rparr>]\<rparr>)
     = (\<lparr>tok_type = 61, lexeme = ''='', tok_span = \<lparr>span_begin = 3, span_end = 4\<rparr>\<rparr>,
        let_state)"
  using get_token_buffered
    [of "let_state\<lparr>buffer := [\<lparr>tok_type = 61, lexeme = ''='',
                                 tok_span = \<lparr>span_begin = 3, span_end = 4\<rparr>\<rparr>]\<rparr>"
        "\<lparr>tok_type = 61, lexeme = ''='', tok_span = \<lparr>span_begin = 3, span_end = 4\<rparr>\<rparr>"
        "[]" hpp0]
  by (simp add: let_state_def Parser_ctor_def)

lemma skip_space_end:
  assumes "good (src p)" and "rest (src p) = []"
  shows "skip_space H p = p\<lparr>src := (src p)\<lparr>eofbit := True, failbit := True\<rparr>\<rparr>"
proof -
  have "is_space (src p) = (False, (src p)\<lparr>eofbit := True, failbit := True\<rparr>)"
    using assms by (simp add: is_space_def istream_peek_def good_def not_class_EOF)
  then show ?thesis by (subst skip_space.simps) simp
qed

text \<open>
  At the end of the input, with nothing in the buffer, \<^verbatim>\<open>get_token\<close> returns a
  \<^verbatim>\<open>tok_eof\<close> token with an empty lexeme.
\<close>

theorem get_token_eof:
  assumes "buffer p = []" and "good (src p)" and "rest (src p) = []"
  shows "tok_type (fst (get_token H p)) = tok_eof H \<and> lexeme (fst (get_token H p)) = []"
proof -
  let ?p1 = "p\<lparr>src := (src p)\<lparr>eofbit := True, failbit := True\<rparr>\<rparr>"
  have "get_token H p =
      (\<lparr>tok_type = tok_eof H, lexeme = [],
        tok_span = (span ?p1)\<lparr>span_end := span_begin (span ?p1), span_begin := 0\<rparr>\<rparr>,
       ?p1\<lparr>span := (span ?p1)\<lparr>span_end := span_begin (span ?p1), span_begin := 0\<rparr>\<rparr>)"
    by (subst get_token.simps)
       (simp add: assms(1) skip_space_end [OF assms(2,3)] istream_eof_def Let_def)
  then show ?thesis by simp
qed

theorem get_token_eof_witness:
  "tok_type (fst (get_token hpp0 (Parser_ctor hpp0 ''f'' (stream_of [])))) = -1
   \<and> lexeme (fst (get_token hpp0 (Parser_ctor hpp0 ''f'' (stream_of [])))) = []"
proof -
  let ?p = "Parser_ctor hpp0 ''f'' (stream_of [])"
  have h: "buffer ?p = []" "good (src ?p)" "rest (src ?p) = []"
    by (simp_all add: Parser_ctor_def stream_of_def good_def)
  from get_token_eof [OF h, of hpp0] show ?thesis by (simp add: hpp0_def)
qed

lemma word_loop_run:
  assumes "good (src p)" and "rest (src p) = ws @ after"
    and "\<forall>c \<in> set ws. isalnum (of_char c)"
    and "after = [] \<or> \<not> isalnum (of_char (hd after))"
  shows "\<exists>p'. word_loop H p acc = (acc @ ws, p')
           \<and> rest (src p') = after
           \<and> consumed (src p') = rev ws @ consumed (src p)
           \<and> buffer p' = buffer p"
  using assms
proof (induction ws arbitrary: p acc)
  case Nil
  have "\<not> isalnum (fst (istream_peek (src p)))
      \<and> rest (snd (istream_peek (src p))) = after
      \<and> consumed (snd (istream_peek (src p))) = consumed (src p)"
  proof (cases after)
    case Nil
    with Nil.prems show ?thesis by (simp add: istream_peek_def not_class_EOF)
  next
    case (Cons a as)
    with Nil.prems show ?thesis by (simp add: istream_peek_def)
  qed
  then show ?case by (subst word_loop.simps) (simp add: split_beta)
next
  case (Cons w ws)
  have pk: "istream_peek (src p) = (of_char w, src p)"
    using Cons.prems by (simp add: istream_peek_good)
  from getc_good [OF Cons.prems(1), of w "ws @ after" H] Cons.prems(2) obtain p1 where
    g: "getc H p = (of_char w, p1)" and
    s1: "src p1 = (src p)\<lparr>consumed := w # consumed (src p), rest := ws @ after,
          putback := min (putback_max (src p)) (Suc (putback (src p)))\<rparr>" and
    fr: "buffer p1 = buffer p"
    by auto
  have g1: "good (src p1)" using Cons.prems(1) s1 by (simp add: good_def)
  have r1: "rest (src p1) = ws @ after" using s1 by simp
  have "\<exists>p'. word_loop H p1 (acc @ [w]) = ((acc @ [w]) @ ws, p')
           \<and> rest (src p') = after
           \<and> consumed (src p') = rev ws @ consumed (src p1)
           \<and> buffer p' = buffer p1"
    by (rule Cons.IH [OF g1 r1]) (use Cons.prems in auto)
  moreover have "word_loop H p acc = word_loop H p1 (acc @ [w])"
    using Cons.prems(3) by (subst word_loop.simps) (simp add: pk g)
  ultimately show ?case using fr s1 by simp
qed

text \<open>
  On a parser with an empty buffer and a good stream whose input begins with a letter,
  \<^verbatim>\<open>get_token\<close> consumes the longest run of letters and digits at the start of the
  input; the token is \<^verbatim>\<open>tok_fn\<close> for \<^verbatim>\<open>fn\<close>, \<^verbatim>\<open>tok_extern\<close> for \<^verbatim>\<open>extern\<close> and
  \<^verbatim>\<open>tok_identifier\<close> for every other word, \<^verbatim>\<open>let\<close> among them.
\<close>

theorem get_token_word:
  assumes "buffer p = []" and "good (src p)"
    and "rest (src p) = a # ws @ after"
    and "isalpha (of_char a)" and "\<forall>c \<in> set ws. isalnum (of_char c)"
    and "after = [] \<or> \<not> isalnum (of_char (hd after))"
  shows "lexeme (fst (get_token H p)) = a # ws
       \<and> tok_type (fst (get_token H p))
           = (if a # ws = ''fn'' then tok_fn H
              else if a # ws = ''extern'' then tok_extern H
              else tok_identifier H)
       \<and> rest (src (snd (get_token H p))) = after"
proof -
  have nsp: "\<not> isspace (of_char a)" "(of_char a :: int) \<noteq> 0xc2"
    using assms(4) by (auto simp add: isalpha_def isspace_def)
  have "is_space (src p) = (False, src p)"
    using nsp assms(2,3) by (simp add: is_space_def istream_peek_good)
  then have sk: "skip_space H p = p" by (subst skip_space.simps) simp
  have ne: "\<not> istream_eof (src p)" using assms(2) by (simp add: istream_eof_def good_def)
  have pk: "istream_peek (src p) = (of_char a, src p)"
    by (rule istream_peek_good [OF assms(2) assms(3)])
  from getc_good [OF assms(2) assms(3), of H] obtain p1 where
    g: "getc H p = (of_char a, p1)" and
    s1: "src p1 = (src p)\<lparr>consumed := a # consumed (src p), rest := ws @ after,
          putback := min (putback_max (src p)) (Suc (putback (src p)))\<rparr>"
    by auto
  have g1: "good (src p1)" using assms(2) s1 by (simp add: good_def)
  have r1: "rest (src p1) = ws @ after" using s1 by simp
  from word_loop_run [OF g1 r1 assms(5) assms(6), of H "[a]"] obtain p' where
    wl: "word_loop H p1 [a] = (a # ws, p')" and r: "rest (src p') = after" by auto
  have "get_token H p =
      (\<lparr>tok_type = (if a # ws = ''fn'' then tok_fn H
                    else if a # ws = ''extern'' then tok_extern H
                    else tok_identifier H),
        lexeme = a # ws,
        tok_span = Span_mkfrom H (span p') (span_begin (span p))\<rparr>, p')"
    by (subst get_token.simps) (simp add: assms(1,4) sk ne pk g wl Let_def)
  with r show ?thesis by simp
qed

theorem get_token_word_witness:
  "lexeme (fst (get_token hpp0 (Parser_ctor hpp0 ''f'' (stream_of ''let x = 1'')))) = ''let''
   \<and> tok_type (fst (get_token hpp0 (Parser_ctor hpp0 ''f'' (stream_of ''let x = 1''))))
       = tok_identifier hpp0
   \<and> tok_type (fst (get_token hpp0 (Parser_ctor hpp0 ''f'' (stream_of ''fn f(x)''))))
       = tok_fn hpp0"
proof -
  let ?p = "Parser_ctor hpp0 ''f'' (stream_of ''let x = 1'')"
  let ?q = "Parser_ctor hpp0 ''f'' (stream_of ''fn f(x)'')"
  have 1: "buffer ?p = []" "good (src ?p)" "rest (src ?p) = CHR ''l'' # ''et'' @ '' x = 1''"
    "isalpha (of_char CHR ''l'')" "\<forall>c \<in> set ''et''. isalnum (of_char c)"
    "'' x = 1'' = [] \<or> \<not> isalnum (of_char (hd '' x = 1''))"
    by (simp_all add: Parser_ctor_def stream_of_def good_def isalnum_def isalpha_def
        isdigit_def)
  have 2: "buffer ?q = []" "good (src ?q)" "rest (src ?q) = CHR ''f'' # ''n'' @ '' f(x)''"
    "isalpha (of_char CHR ''f'')" "\<forall>c \<in> set ''n''. isalnum (of_char c)"
    "'' f(x)'' = [] \<or> \<not> isalnum (of_char (hd '' f(x)''))"
    by (simp_all add: Parser_ctor_def stream_of_def good_def isalnum_def isalpha_def
        isdigit_def)
  from get_token_word [OF 1, of hpp0] get_token_word [OF 2, of hpp0] show ?thesis
    by simp
qed

end
